theory Spec2Isabelle
  imports Main "HOL-Library.AList" "HOL-Library.Sublist" "HOL-Library.Product_Lexorder"
begin

section \<open>Data model\<close>

text \<open>
  The job record of the schema comment in \<^verbatim>\<open>MemoryStorage.js\<close>. The two fields
  the source keeps as JSON text (\<^verbatim>\<open>payload\<close>, \<^verbatim>\<open>data\<close>) are modelled by the values
  that \<^verbatim>\<open>JSON.parse\<close> gives back: the payload object (of which the queue reads only
  \<^verbatim>\<open>payload.id\<close>) and the bookkeeping object \<^verbatim>\<open>{attempts, failedAttempts, errors}\<close>, whose
  last two keys are absent until the first failure (\<open>None\<close>). Dates are
  millisecond timestamps; \<^verbatim>\<open>null\<close> in \<^verbatim>\<open>failed\<close> is \<open>None\<close>.
  The field \<^verbatim>\<open>id\<close> is called \<open>job_id\<close> since \<open>id\<close> is HOL's identity function.
\<close>

record payload =
  payload_id :: "string option"
  payload_body :: string

record job_data =
  attempts :: int
  failedAttempts :: "int option"
  errors :: "string list option"

record job =
  job_id :: string
  name :: string
  payload :: payload
  data :: job_data
  priority :: int
  active :: bool
  timeout :: int
  created :: int
  failed :: "int option"

section \<open>The storage primitives (memoryStorage)\<close>

text \<open>
  \<^verbatim>\<open>memoryStorage.items\<close> is a JavaScript object used as a dictionary. Its keys are
  enumerated by \<^verbatim>\<open>Object.keys\<close> in insertion order (no key of the queue is an array
  index: they all start with \<^verbatim>\<open>@\<close>), assigning to a present key keeps its place and
  \<^verbatim>\<open>delete\<close> removes it. That is an association list with \<open>AList.update\<close> and
  \<open>AList.delete\<close>.
\<close>

type_synonym items = "(string \<times> job) list"

definition JOB_PREFIX :: string where
  "JOB_PREFIX = ''@queue:Job-''"

text \<open>\<^verbatim>\<open>save(key, value)\<close> with a single key: \<^verbatim>\<open>items[key] = value\<close>.\<close>

definition storage_save :: "string \<Rightarrow> job \<Rightarrow> items \<Rightarrow> items" where
  "storage_save key v its = AList.update key v its"

text \<open>\<^verbatim>\<open>save(pairs)\<close> with an array of pairs: the assignments run in array order.\<close>

fun storage_save_pairs :: "(string \<times> job) list \<Rightarrow> items \<Rightarrow> items" where
  "storage_save_pairs [] its = its"
| "storage_save_pairs (pair # pairs) its = storage_save_pairs pairs (storage_save (fst pair) (snd pair) its)"

text \<open>\<^verbatim>\<open>get(keys)\<close> with an array of keys: the values found, in key order (a job
  object is never falsy, so \<^verbatim>\<open>if (value)\<close> tests presence).\<close>

definition storage_get :: "string list \<Rightarrow> items \<Rightarrow> job list" where
  "storage_get keys its = List.map_filter (map_of its) keys"

text \<open>\<^verbatim>\<open>delete(key)\<close> and \<^verbatim>\<open>delete(keys)\<close>.\<close>

definition storage_delete :: "string \<Rightarrow> items \<Rightarrow> items" where
  "storage_delete key its = AList.delete key its"

fun storage_delete_keys :: "string list \<Rightarrow> items \<Rightarrow> items" where
  "storage_delete_keys [] its = its"
| "storage_delete_keys (k # ks) its = storage_delete_keys ks (storage_delete k its)"

text \<open>\<^verbatim>\<open>getKeys(prefix)\<close>: \<^verbatim>\<open>Object.keys\<close>, filtered by \<^verbatim>\<open>startsWith\<close> when a prefix is given.\<close>

definition storage_getKeys :: "string option \<Rightarrow> items \<Rightarrow> string list" where
  "storage_getKeys pfx its =
     (case pfx of
        None \<Rightarrow> map fst its
      | Some p \<Rightarrow> (if p = [] then map fst its else filter (\<lambda>e. prefix p e) (map fst its)))"

section \<open>MemoryStorage\<close>

definition getKey :: "job \<Rightarrow> string" where
  "getKey j = JOB_PREFIX @ job_id j"

definition create :: "job \<Rightarrow> items \<Rightarrow> items" where
  "create j its = storage_save (getKey j) j its"

definition objects :: "items \<Rightarrow> job list" where
  "objects its = storage_get (storage_getKeys (Some JOB_PREFIX) its) its"

definition save :: "job \<Rightarrow> items \<Rightarrow> items" where
  "save j its = create j its"

definition saveAll :: "job list \<Rightarrow> items \<Rightarrow> items" where
  "saveAll jobs its = storage_save_pairs (map (\<lambda>j. (getKey j, j)) jobs) its"

text \<open>\<^verbatim>\<open>delete(job)\<close> with one job and with an array of jobs.\<close>

definition delete :: "job \<Rightarrow> items \<Rightarrow> items" where
  "delete j its = storage_delete (getKey j) its"

definition delete_jobs :: "job list \<Rightarrow> items \<Rightarrow> items" where
  "delete_jobs jobs its = storage_delete_keys (map getKey jobs) its"

definition deleteAll :: "items \<Rightarrow> items" where
  "deleteAll its = storage_delete_keys (storage_getKeys (Some JOB_PREFIX) its) its"

text \<open>
  \<^verbatim>\<open>merge(job, fields)\<close>: \<^verbatim>\<open>Object.assign(job, fields)\<close> and then \<^verbatim>\<open>save(job)\<close>.
  A key that \<^verbatim>\<open>fields\<close> does not have is \<open>None\<close>; the queue only ever passes
  \<^verbatim>\<open>data\<close>, \<^verbatim>\<open>active\<close> and \<^verbatim>\<open>failed\<close>. The assigned job object is returned beside
  the store, because the source changes it in place.
\<close>

record job_fields =
  fields_data :: "job_data option"
  fields_active :: "bool option"
  fields_failed :: "int option option"

definition assign :: "job \<Rightarrow> job_fields \<Rightarrow> job" where
  "assign j f =
     (let j1 = (case fields_data f of None \<Rightarrow> j | Some d \<Rightarrow> j\<lparr>data := d\<rparr>);
          j2 = (case fields_active f of None \<Rightarrow> j1 | Some a \<Rightarrow> j1\<lparr>active := a\<rparr>);
          j3 = (case fields_failed f of None \<Rightarrow> j2 | Some t \<Rightarrow> j2\<lparr>failed := t\<rparr>)
      in j3)"

definition merge :: "job \<Rightarrow> job_fields \<Rightarrow> items \<Rightarrow> job \<times> items" where
  "merge j f its = (assign j f, save (assign j f) its)"

text \<open>
  \<^verbatim>\<open>_.orderBy(jobs, ['priority', 'created'], ['desc', 'asc'])\<close>: lodash sorts stably,
  comparing the priorities in descending order and, when they are equal, the creation
  times in ascending order. \<open>sort_key\<close> is a stable insertion sort; the key is compared
  lexicographically.
\<close>

definition orderBy :: "job list \<Rightarrow> job list" where
  "orderBy jobs = sort_key (\<lambda>j. (- priority j, created j)) jobs"

text \<open>\<^verbatim>\<open>findNextJobs(timeoutUpperBound)\<close>; \<^verbatim>\<open>undefined\<close> is \<open>None\<close>.\<close>

definition findNextJobs :: "int option \<Rightarrow> items \<Rightarrow> job list" where
  "findNextJobs upperBound its =
     (let jobs = objects its;
          jobs1 = (case upperBound of
                     Some b \<Rightarrow> filter (\<lambda>j. \<not> active j \<and> failed j = None \<and> timeout j > 0 \<and> timeout j < b) jobs
                   | None \<Rightarrow> filter (\<lambda>j. \<not> active j \<and> failed j = None) jobs)
      in orderBy jobs1)"

text \<open>
  \<^verbatim>\<open>markActive(jobs)\<close> sets \<^verbatim>\<open>active\<close> on the job objects themselves and saves them.
  The objects are those of the caller's array, so the changed jobs are returned
  beside the store.
\<close>

definition markActive :: "job list \<Rightarrow> items \<Rightarrow> job list \<times> items" where
  "markActive jobs its =
     (let jobs1 = map (\<lambda>j. j\<lparr>active := True\<rparr>) jobs
      in (jobs1, saveAll jobs1 its))"

definition deleteByName :: "string \<Rightarrow> items \<Rightarrow> items" where
  "deleteByName jobName its =
     (let jobs = filter (\<lambda>j. name j = jobName) (objects its)
      in if jobs \<noteq> [] then delete_jobs jobs its else its)"

definition resetFailedJobs :: "items \<Rightarrow> items" where
  "resetFailedJobs its = saveAll (map (\<lambda>j. j\<lparr>failed := None\<rparr>) (objects its)) its"

section \<open>Queue\<close>

text \<open>
  The queue object: its store, its status and the one-shot flag of the constructor.
  \<^verbatim>\<open>Worker.js\<close> is not among the sources, so what the queue asks of its worker
  is a parameter of the functions below: \<open>getConcurrency\<close> (the number
  \<^verbatim>\<open>this.worker.getConcurrency(name)\<close> returns), the outcome of
  \<^verbatim>\<open>this.worker.executeJob(job)\<close> (the promise resolves with a result or rejects
  with an error whose message is recorded), and the calls of
  \<^verbatim>\<open>this.worker.executeJobLifecycleCallback\<close>, which are collected in a trace, in
  the order in which they are made. A call of a lifecycle callback returns normally
  (the spec, 4.1: what a callback throws is caught and logged by the worker).

  The queue runs on one thread and the functions below are its steps in program order.
  The job objects of JavaScript are shared between the store and the arrays the queue
  holds; here a job is a value, and a function that changes job objects in place
  returns the changed jobs. Both views agree as long as a job the queue holds is the
  record stored under its key, which is so from selection to settlement unless a job
  with the same id is created in between.
\<close>

datatype status = Inactive | Active

record queue =
  jobDB :: items
  status :: status
  executeFailedJobsOnStart :: bool

datatype error = Error string

text \<open>The options object of \<^verbatim>\<open>createJob\<close>; a key that is not given is \<open>None\<close>.\<close>

record options =
  options_timeout :: "int option"
  options_attempts :: "int option"
  options_priority :: "int option"

datatype exec_outcome = Resolved string | Rejected string

datatype lifecycle = onStart | onSuccess | onFailure | onFailed | onComplete

text \<open>One call \<^verbatim>\<open>executeJobLifecycleCallback(event, jobName, jobId, jobPayload, jobResult)\<close>;
  a result that is \<^verbatim>\<open>undefined\<close> or not passed is \<open>None\<close>.\<close>

datatype callback = Callback lifecycle string string payload "string option"

text \<open>\<^verbatim>\<open>x < 0\<close> on an option that may be \<^verbatim>\<open>undefined\<close>: the comparison with
  \<^verbatim>\<open>undefined\<close> is false.\<close>

definition lt0 :: "int option \<Rightarrow> bool" where
  "lt0 x = (case x of None \<Rightarrow> False | Some v \<Rightarrow> v < 0)"

text \<open>
  \<^verbatim>\<open>createJob(name, payload, options, startQueue)\<close>. A name that is not given is
  \<open>None\<close>; \<^verbatim>\<open>!name\<close> holds for it and for the empty string. \<open>uuid\<close> is what
  \<^verbatim>\<open>uuid.v4()\<close> would return and \<open>now\<close> what \<^verbatim>\<open>new Date()\<close> returns. A thrown
  error is \<open>Inl\<close>, returned with the queue as it is at the throw.
  \<^verbatim>\<open>this.jobDB.resetFailedJobs()\<close> is not awaited; it has read the keys before the new
  job is saved and clears \<^verbatim>\<open>failed\<close> on the stored objects right after, which leaves
  the store that resetting first and creating second leaves. The call
  \<^verbatim>\<open>this.start()\<close> at the end is not awaited either: the result \<open>Inr b\<close> tells
  whether it is made (\<open>b\<close>), and the loop it runs is \<open>start\<close> below.
\<close>

definition createJob ::
  "string option \<Rightarrow> payload \<Rightarrow> options \<Rightarrow> bool \<Rightarrow> string \<Rightarrow> int \<Rightarrow> queue \<Rightarrow> (error + bool) \<times> queue" where
  "createJob name_arg pl opts startQueue uuid now q =
     (case name_arg of
        None \<Rightarrow> (Inl (Error ''Job name must be supplied.''), q)
      | Some nm \<Rightarrow>
          if nm = [] then (Inl (Error ''Job name must be supplied.''), q)
          else if lt0 (options_timeout opts) \<or> lt0 (options_attempts opts)
          then (Inl (Error ''Invalid job option.''), q)
          else
            let q1 = (if executeFailedJobsOnStart q
                      then q\<lparr>jobDB := resetFailedJobs (jobDB q), executeFailedJobsOnStart := False\<rparr>
                      else q);
                j = \<lparr> job_id = (case payload_id pl of
                                  None \<Rightarrow> uuid
                                | Some i \<Rightarrow> if i = [] then uuid else i),
                      name = nm,
                      payload = pl,
                      data = \<lparr> attempts = (case options_attempts opts of
                                              None \<Rightarrow> 1
                                            | Some a \<Rightarrow> if a = 0 then 1 else a),
                               failedAttempts = None,
                               errors = None \<rparr>,
                      priority = (case options_priority opts of
                                    None \<Rightarrow> 0
                                  | Some p \<Rightarrow> if p = 0 then 0 else p),
                      active = False,
                      timeout = (case options_timeout opts of
                                   None \<Rightarrow> 25000
                                 | Some t \<Rightarrow> if t \<ge> 0 then t else 25000),
                      created = now,
                      failed = None \<rparr>;
                q2 = q1\<lparr>jobDB := create j (jobDB q1)\<rparr>
            in (Inr (startQueue \<and> status q2 = Inactive), q2))"

text \<open>\<^verbatim>\<open>stop()\<close>.\<close>

definition stop :: "queue \<Rightarrow> queue" where
  "stop q = q\<lparr>status := Inactive\<rparr>"

text \<open>\<^verbatim>\<open>getJobs()\<close>.\<close>

definition getJobs :: "queue \<Rightarrow> job list" where
  "getJobs q = objects (jobDB q)"

text \<open>\<^verbatim>\<open>xs.slice(0, n)\<close>: a negative end counts from the end of the array.\<close>

definition slice0 :: "'a list \<Rightarrow> int \<Rightarrow> 'a list" where
  "slice0 xs n = (if n < 0 then take (nat (int (length xs) + n)) xs else take (nat n) xs)"

text \<open>
  \<^verbatim>\<open>getConcurrentJobs(queueLifespanRemaining)\<close>, on the store; \<^verbatim>\<open>undefined\<close> is
  \<open>None\<close>. The jobs returned are the objects \<^verbatim>\<open>markActive\<close> has changed.
\<close>

definition timeoutUpperBound :: "int option \<Rightarrow> int option" where
  "timeoutUpperBound queueLifespanRemaining =
     (case queueLifespanRemaining of
        None \<Rightarrow> None
      | Some l \<Rightarrow> Some (l - 499))"

definition getConcurrentJobs ::
  "(string \<Rightarrow> int) \<Rightarrow> int option \<Rightarrow> items \<Rightarrow> job list \<times> items" where
  "getConcurrentJobs getConcurrency queueLifespanRemaining its =
     (let jobs = findNextJobs (timeoutUpperBound queueLifespanRemaining) its
      in case jobs of
           [] \<Rightarrow> ([], its)
         | nextJob # _ \<Rightarrow>
             let concurrency = getConcurrency (name nextJob);
                 allRelatedJobs = filter (\<lambda>j. name j = name nextJob) jobs;
                 concurrentJobs = slice0 allRelatedJobs concurrency
             in markActive concurrentJobs its)"

text \<open>
  \<^verbatim>\<open>processJob(job)\<close>, on the store, given the outcome of \<^verbatim>\<open>executeJob\<close> and the
  time \<open>now\<close> that \<^verbatim>\<open>new Date()\<close> returns in the failure branch. The trace lists the
  lifecycle callbacks in call order. The function suspends once, at
  \<^verbatim>\<open>await this.worker.executeJob(job)\<close>: \<open>processJob_settle\<close> is what runs after
  that point (the rest of the \<^verbatim>\<open>try\<close> block, or the \<^verbatim>\<open>catch\<close> block), and
  \<open>processJob\<close> is the whole call.
\<close>

definition processJob_settle :: "exec_outcome \<Rightarrow> int \<Rightarrow> job \<Rightarrow> items \<Rightarrow> callback list \<times> items" where
  "processJob_settle outcome now j its =
     (let jobName = name j;
          jobId = job_id j;
          jobPayload = payload j
      in case outcome of
           Resolved jobResult \<Rightarrow>
             ([Callback onSuccess jobName jobId jobPayload (Some jobResult),
               Callback onComplete jobName jobId jobPayload (Some jobResult)],
              delete j its)
         | Rejected message \<Rightarrow>
             let jobData = data j;
                 jobData1 = jobData\<lparr>failedAttempts :=
                              (case failedAttempts jobData of
                                 None \<Rightarrow> Some 1
                               | Some n \<Rightarrow> if n = 0 then Some 1 else Some (n + 1))\<rparr>;
                 jobData2 = jobData1\<lparr>errors :=
                              (case errors jobData1 of
                                 None \<Rightarrow> Some [message]
                               | Some es \<Rightarrow> Some (es @ [message]))\<rparr>;
                 exhausted = (case failedAttempts jobData2 of
                                None \<Rightarrow> False
                              | Some n \<Rightarrow> n \<ge> attempts jobData2);
                 jobMerge = \<lparr> fields_data = Some jobData2,
                              fields_active = Some False,
                              fields_failed = (if exhausted then Some (Some now) else None) \<rparr>
             in ([Callback onFailure jobName jobId jobPayload None]
                   @ (if exhausted
                      then [Callback onFailed jobName jobId jobPayload None,
                            Callback onComplete jobName jobId jobPayload None]
                      else []),
                 snd (merge j jobMerge its)))"

definition processJob :: "exec_outcome \<Rightarrow> int \<Rightarrow> job \<Rightarrow> items \<Rightarrow> callback list \<times> items" where
  "processJob outcome now j its =
     (let settled = processJob_settle outcome now j its
      in (Callback onStart (name j) (job_id j) (payload j) None # fst settled, snd settled))"

text \<open>\<^verbatim>\<open>flushQueue(jobName)\<close>; \<^verbatim>\<open>null\<close> and the empty string are falsy.\<close>

definition flushQueue :: "string option \<Rightarrow> queue \<Rightarrow> queue" where
  "flushQueue jobName q =
     (case jobName of
        None \<Rightarrow> q\<lparr>jobDB := deleteAll (jobDB q)\<rparr>
      | Some n \<Rightarrow> if n = [] then q\<lparr>jobDB := deleteAll (jobDB q)\<rparr>
                  else q\<lparr>jobDB := deleteByName n (jobDB q)\<rparr>)"

text \<open>
  \<^verbatim>\<open>start(lifespan)\<close>. What the loop reads from outside the queue is an environment:
  the worker's concurrency table, the clock (\<open>clock_now e 0\<close> is the
  \<^verbatim>\<open>Date.now()\<close> of \<^verbatim>\<open>startTime\<close>, \<open>clock_now e (Suc n)\<close> the one read in
  iteration \<open>n\<close>), the outcome and failure time of every job of iteration \<open>n\<close>,
  and whether \<^verbatim>\<open>stop()\<close> is called while the batch of iteration \<open>n\<close> is in
  flight. Jobs are not created while the loop runs.

  \<^verbatim>\<open>concurrentJobs.map(job => this.processJob(job))\<close> runs every \<^verbatim>\<open>processJob\<close> up to
  its \<^verbatim>\<open>await\<close>, so the \<^verbatim>\<open>onStart\<close> callbacks come first, in batch order; the jobs
  then settle, here in batch order (the store they leave does not depend on that
  order when the ids are distinct).

  The \<^verbatim>\<open>do ... while\<close> loop is a recursion on fuel: \<open>None\<close> means that the fuel ran
  out before the loop ended.
\<close>

record env =
  worker_getConcurrency :: "string \<Rightarrow> int"
  clock_now :: "nat \<Rightarrow> int"
  worker_executeJob :: "nat \<Rightarrow> job \<Rightarrow> exec_outcome"
  clock_newDate :: "nat \<Rightarrow> job \<Rightarrow> int"
  stop_called :: "nat \<Rightarrow> bool"

fun settle_all :: "(job \<Rightarrow> exec_outcome) \<Rightarrow> (job \<Rightarrow> int) \<Rightarrow> job list \<Rightarrow> items \<Rightarrow> callback list \<times> items" where
  "settle_all ex nd [] its = ([], its)"
| "settle_all ex nd (j # js) its =
     (let settled = processJob_settle (ex j) (nd j) j its;
          others = settle_all ex nd js (snd settled)
      in (fst settled @ fst others, snd others))"

definition process_batch :: "(job \<Rightarrow> exec_outcome) \<Rightarrow> (job \<Rightarrow> int) \<Rightarrow> job list \<Rightarrow> items \<Rightarrow> callback list \<times> items" where
  "process_batch ex nd jobs its =
     (let settled = settle_all ex nd jobs its
      in (map (\<lambda>j. Callback onStart (name j) (job_id j) (payload j) None) jobs @ fst settled, snd settled))"

fun run_loop :: "nat \<Rightarrow> env \<Rightarrow> int option \<Rightarrow> int \<Rightarrow> nat \<Rightarrow> queue \<Rightarrow> (callback list \<times> queue) option" where
  "run_loop 0 e lifespan startTime n q = None"
| "run_loop (Suc fuel) e lifespan startTime n q =
     (let lifespanRemaining = (case lifespan of
                                 None \<Rightarrow> None
                               | Some l \<Rightarrow> Some (l - (clock_now e (Suc n) - startTime)));
          selected = getConcurrentJobs (worker_getConcurrency e) lifespanRemaining (jobDB q);
          concurrentJobs = fst selected;
          processed = process_batch (worker_executeJob e n) (clock_newDate e n) concurrentJobs (snd selected);
          q1 = q\<lparr>jobDB := snd processed,
                 status := (if stop_called e n then Inactive else status q)\<rparr>
      in if status q1 = Active \<and> concurrentJobs \<noteq> []
         then (case run_loop fuel e lifespan startTime (Suc n) q1 of
                 None \<Rightarrow> None
               | Some rest \<Rightarrow> Some (fst processed @ fst rest, snd rest))
         else Some (fst processed, q1\<lparr>status := Inactive\<rparr>))"

text \<open>The value \<^verbatim>\<open>start\<close> resolves with: \<^verbatim>\<open>false\<close>, or nothing (\<^verbatim>\<open>undefined\<close>).\<close>

datatype start_return = ReturnFalse | ReturnUndefined

definition start :: "nat \<Rightarrow> env \<Rightarrow> int option \<Rightarrow> queue \<Rightarrow> (start_return \<times> callback list \<times> queue) option" where
  "start fuel e lifespan q =
     (if status q = Active then Some (ReturnFalse, [], q)
      else case run_loop fuel e lifespan (clock_now e 0) 0 (q\<lparr>status := Active\<rparr>) of
             None \<Rightarrow> None
           | Some done \<Rightarrow> Some (ReturnUndefined, fst done, snd done))"

section \<open>Invariant, measure and sample data\<close>

text \<open>
  The states of \<^verbatim>\<open>memoryStorage.items\<close> that \<^verbatim>\<open>MemoryStorage\<close> produces: an object has
  every key once, and a job is stored under the key \<^verbatim>\<open>_getKey\<close> gives it.
\<close>

definition wf_items :: "items \<Rightarrow> bool" where
  "wf_items its \<longleftrightarrow> distinct (map fst its) \<and> list_all (\<lambda>e. fst e = getKey (snd e)) its"

text \<open>The failures a job has had so far (\<^verbatim>\<open>failedAttempts\<close>, absent counts as none).\<close>

definition failures :: "job \<Rightarrow> int" where
  "failures j = (case failedAttempts (data j) of None \<Rightarrow> 0 | Some n \<Rightarrow> n)"

text \<open>The measure of the loop: a job not yet failed for good weighs one more than the
  failures it has left.\<close>

definition weight :: "job \<Rightarrow> nat" where
  "weight j = (if failed j = None then 1 + nat (attempts (data j) - failures j) else 0)"

definition potential :: "items \<Rightarrow> nat" where
  "potential its = sum_list (map weight (objects its))"

text \<open>The record \<open>processJob\<close> saves for a job whose execution failed.\<close>

definition after_failure :: "int \<Rightarrow> string \<Rightarrow> job \<Rightarrow> job" where
  "after_failure now message j =
     j\<lparr> data := (data j)\<lparr> failedAttempts := Some (failures j + 1),
                           errors := Some ((case errors (data j) of None \<Rightarrow> [] | Some es \<Rightarrow> es) @ [message]) \<rparr>,
        active := False,
        failed := (if failures j + 1 \<ge> attempts (data j) then Some now else failed j) \<rparr>"

text \<open>
  How two stores are related when an operation adds no record and clears no \<open>failed\<close>:
  every record of the second has the id of a record of the first, and is failed if that
  one was.
\<close>

definition keeps_failed :: "items \<Rightarrow> items \<Rightarrow> bool" where
  "keeps_failed its its' \<longleftrightarrow>
     (\<forall>j' \<in> set (objects its'). \<exists>j \<in> set (objects its).
        job_id j = job_id j' \<and> (failed j \<noteq> None \<longrightarrow> failed j' \<noteq> None))"

text \<open>No record of the store that has the id of \<open>j\<close> has an empty \<open>failed\<close>.\<close>

definition still_failed :: "job \<Rightarrow> items \<Rightarrow> bool" where
  "still_failed j its \<longleftrightarrow> (\<forall>j' \<in> set (objects its). job_id j' = job_id j \<longrightarrow> failed j' \<noteq> None)"

text \<open>The id \<open>createJob\<close> gives the new job: \<^verbatim>\<open>payload.id || uuid.v4()\<close>.\<close>

definition new_job_id :: "payload \<Rightarrow> string \<Rightarrow> string" where
  "new_job_id pl uuid = (case payload_id pl of None \<Rightarrow> uuid | Some i \<Rightarrow> if i = [] then uuid else i)"

text \<open>The spec's \<^verbatim>\<open>x ?? d\<close>: \<open>d\<close> when \<open>x\<close> is not given, and \<open>x\<close> otherwise.\<close>

definition spec_nullish :: "'a option \<Rightarrow> 'a \<Rightarrow> 'a" where
  "spec_nullish x d = (case x of None \<Rightarrow> d | Some v \<Rightarrow> v)"

text \<open>Sample data for the concrete instances below.\<close>

definition sample_job :: "string \<Rightarrow> string \<Rightarrow> int \<Rightarrow> int \<Rightarrow> int \<Rightarrow> job" where
  "sample_job i n p t c =
     \<lparr> job_id = i, name = n, payload = \<lparr> payload_id = Some i, payload_body = [] \<rparr>,
       data = \<lparr> attempts = 1, failedAttempts = None, errors = None \<rparr>,
       priority = p, active = False, timeout = t, created = c, failed = None \<rparr>"

definition sample_items :: items where
  "sample_items =
     create (sample_job ''c'' ''mail'' 5 0 30)
       (create (sample_job ''b'' ''sync'' 5 1000 20)
          (create (sample_job ''a'' ''mail'' 0 25000 10) []))"

definition empty_queue :: queue where
  "empty_queue = \<lparr> jobDB = [], status = Inactive, executeFailedJobsOnStart = False \<rparr>"


text \<open>A worker with concurrency 1 whose \<^verbatim>\<open>sync\<close> jobs fail and whose other jobs
  succeed; \<^verbatim>\<open>stop()\<close> is never called.\<close>

definition sample_env :: env where
  "sample_env =
     \<lparr> worker_getConcurrency = (\<lambda>_. 1),
       clock_now = (\<lambda>n. int n),
       worker_executeJob = (\<lambda>n j. if name j = ''sync'' then Rejected ''boom'' else Resolved ''ok''),
       clock_newDate = (\<lambda>n j. 99),
       stop_called = (\<lambda>_. False) \<rparr>"

text \<open>The sample store after the job \<^verbatim>\<open>b\<close> has failed its only attempt.\<close>

definition sample_failed_queue :: queue where
  "sample_failed_queue =
     \<lparr> jobDB = snd (processJob (Rejected ''boom'') 99
                  ((sample_job ''b'' ''sync'' 5 1000 20)\<lparr>active := True\<rparr>) sample_items),
       status = Inactive, executeFailedJobsOnStart = False \<rparr>"

section \<open>Selection: eligibility and order\<close>

lemma set_orderBy: "set (orderBy js) = set js"
  by (simp add: orderBy_def)

lemma sorted_orderBy:
  "sorted_wrt (\<lambda>x y. priority x > priority y \<or> (priority x = priority y \<and> created x \<le> created y))
     (orderBy js)"
proof -
  have "sorted (map (\<lambda>j. (- priority j, created j)) (orderBy js))"
    by (simp add: orderBy_def)
  then have "sorted_wrt (\<lambda>x y. (- priority x, created x) \<le> (- priority y, created y)) (orderBy js)"
    by (simp add: sorted_map)
  then show ?thesis
    by (rule sorted_wrt_mono_rel[rotated]) (auto simp: less_eq_prod_def)
qed

lemma set_findNextJobs_None:
  "set (findNextJobs None its) = {j \<in> set (objects its). \<not> active j \<and> failed j = None}"
  by (auto simp: findNextJobs_def set_orderBy)

lemma set_findNextJobs_Some:
  "set (findNextJobs (Some b) its) =
     {j \<in> set (objects its). \<not> active j \<and> failed j = None \<and> 0 < timeout j \<and> timeout j < b}"
  by (auto simp: findNextJobs_def set_orderBy)

lemma findNextJobs_eligible:
  "j \<in> set (findNextJobs b its) \<Longrightarrow> j \<in> set (objects its) \<and> \<not> active j \<and> failed j = None"
  by (cases b) (auto simp: set_findNextJobs_None set_findNextJobs_Some)

lemma sorted_findNextJobs:
  "sorted_wrt (\<lambda>x y. priority x > priority y \<or> (priority x = priority y \<and> created x \<le> created y))
     (findNextJobs b its)"
  by (simp add: findNextJobs_def Let_def sorted_orderBy)

lemma set_slice0: "set (slice0 xs n) \<subseteq> set xs"
  by (auto simp: slice0_def dest: in_set_takeD)

lemma sorted_wrt_slice0: "sorted_wrt P xs \<Longrightarrow> sorted_wrt P (slice0 xs n)"
  by (simp add: slice0_def sorted_wrt_take)

lemma getConcurrentJobs_fst:
  "fst (getConcurrentJobs gc l its) =
     (case findNextJobs (timeoutUpperBound l) its of
        [] \<Rightarrow> []
      | nextJob # _ \<Rightarrow>
          map (\<lambda>j. j\<lparr>active := True\<rparr>)
            (slice0 (filter (\<lambda>j. name j = name nextJob) (findNextJobs (timeoutUpperBound l) its))
               (gc (name nextJob))))"
  by (simp add: getConcurrentJobs_def markActive_def Let_def split: list.splits)

lemma getConcurrentJobs_from_candidates:
  assumes "r \<in> set (fst (getConcurrentJobs gc l its))"
  shows "\<exists>j \<in> set (findNextJobs (timeoutUpperBound l) its). r = j\<lparr>active := True\<rparr>"
proof (cases "findNextJobs (timeoutUpperBound l) its")
  case Nil
  with assms show ?thesis by (simp add: getConcurrentJobs_fst)
next
  case (Cons nextJob rest)
  with assms obtain j where
    j: "j \<in> set (slice0 (filter (\<lambda>j. name j = name nextJob) (findNextJobs (timeoutUpperBound l) its))
               (gc (name nextJob)))" and r: "r = j\<lparr>active := True\<rparr>"
    by (auto simp: getConcurrentJobs_fst)
  from j have "j \<in> set (findNextJobs (timeoutUpperBound l) its)"
    using set_slice0 by fastforce
  with r show ?thesis by blast
qed

lemma objects_sample_items:
  "objects sample_items =
     [sample_job ''a'' ''mail'' 0 25000 10, sample_job ''b'' ''sync'' 5 1000 20,
      sample_job ''c'' ''mail'' 5 0 30]"
  by (simp add: sample_items_def objects_def create_def storage_save_def storage_get_def
        storage_getKeys_def getKey_def JOB_PREFIX_def sample_job_def)

lemma findNextJobs_sample_items:
  "findNextJobs None sample_items =
     [sample_job ''b'' ''sync'' 5 1000 20, sample_job ''c'' ''mail'' 5 0 30,
      sample_job ''a'' ''mail'' 0 25000 10]"
  by (simp add: findNextJobs_def objects_sample_items orderBy_def sample_job_def less_eq_prod_def)

lemma findNextJobs_sample_items_1001:
  "findNextJobs (Some 1001) sample_items = [sample_job ''b'' ''sync'' 5 1000 20]"
  by (simp add: findNextJobs_def objects_sample_items orderBy_def sample_job_def less_eq_prod_def)

lemma findNextJobs_sample_items_1000: "findNextJobs (Some 1000) sample_items = []"
  by (simp add: findNextJobs_def objects_sample_items orderBy_def sample_job_def less_eq_prod_def)

text \<open>
  Claim C1. Whatever the store holds and whatever bound is passed, the list
  \<open>findNextJobs\<close> produces holds only stored jobs with \<open>active = False\<close> and
  \<open>failed = None\<close>, and it is ordered by priority, highest first, with the older
  creation time first among equal priorities. Every job \<open>getConcurrentJobs\<close> returns
  is such a stored, inactive, not failed job, handed out with \<open>active\<close> set by
  \<open>markActive\<close>, and the batch is in the same order.
\<close>

theorem findNextJobs_eligible_ordered:
  "(\<forall>j \<in> set (findNextJobs b its). j \<in> set (objects its) \<and> \<not> active j \<and> failed j = None)
   \<and> sorted_wrt (\<lambda>x y. priority x > priority y \<or> (priority x = priority y \<and> created x \<le> created y))
        (findNextJobs b its)
   \<and> (\<forall>r \<in> set (fst (getConcurrentJobs gc l its)).
        \<exists>j \<in> set (objects its). \<not> active j \<and> failed j = None \<and> r = j\<lparr>active := True\<rparr>)
   \<and> sorted_wrt (\<lambda>x y. priority x > priority y \<or> (priority x = priority y \<and> created x \<le> created y))
        (fst (getConcurrentJobs gc l its))"
proof -
  let ?P = "\<lambda>x y. priority x > priority y \<or> (priority x = priority y \<and> created x \<le> created y)"
  have eligible: "\<forall>j \<in> set (findNextJobs b its). j \<in> set (objects its) \<and> \<not> active j \<and> failed j = None"
    using findNextJobs_eligible by blast
  have ordered: "sorted_wrt ?P (findNextJobs b its)"
    by (rule sorted_findNextJobs)
  have batch: "\<forall>r \<in> set (fst (getConcurrentJobs gc l its)).
        \<exists>j \<in> set (objects its). \<not> active j \<and> failed j = None \<and> r = j\<lparr>active := True\<rparr>"
  proof
    fix r assume "r \<in> set (fst (getConcurrentJobs gc l its))"
    then obtain j where "j \<in> set (findNextJobs (timeoutUpperBound l) its)" "r = j\<lparr>active := True\<rparr>"
      using getConcurrentJobs_from_candidates by blast
    then show "\<exists>j \<in> set (objects its). \<not> active j \<and> failed j = None \<and> r = j\<lparr>active := True\<rparr>"
      using findNextJobs_eligible by blast
  qed
  have batch_ordered: "sorted_wrt ?P (fst (getConcurrentJobs gc l its))"
  proof (cases "findNextJobs (timeoutUpperBound l) its")
    case Nil
    then show ?thesis by (simp add: getConcurrentJobs_fst)
  next
    case (Cons nextJob rest)
    let ?related = "filter (\<lambda>j. name j = name nextJob) (findNextJobs (timeoutUpperBound l) its)"
    have "sorted_wrt ?P ?related"
      by (rule sorted_wrt_filter) (rule sorted_findNextJobs)
    then have "sorted_wrt ?P (slice0 ?related (gc (name nextJob)))"
      by (rule sorted_wrt_slice0)
    then have "sorted_wrt ?P (map (\<lambda>j. j\<lparr>active := True\<rparr>) (slice0 ?related (gc (name nextJob))))"
      by (simp add: sorted_wrt_map)
    with Cons show ?thesis by (simp add: getConcurrentJobs_fst)
  qed
  show ?thesis
    by (intro conjI eligible ordered batch batch_ordered)
qed

theorem findNextJobs_eligible_ordered_witness:
  "set (findNextJobs None sample_items) \<noteq> {}
   \<and> list_all (\<lambda>j. j \<in> set (objects sample_items) \<and> \<not> active j \<and> failed j = None)
        (findNextJobs None sample_items)
   \<and> map job_id (findNextJobs None sample_items) = [''b'', ''c'', ''a'']
   \<and> map priority (findNextJobs None sample_items) = [5, 5, 0]
   \<and> map created (findNextJobs None sample_items) = [20, 30, 10]
   \<and> map job_id (fst (getConcurrentJobs (\<lambda>_. 1) None sample_items)) = [''b'']"
  using findNextJobs_eligible_ordered [of None sample_items "\<lambda>_. 1" None]
  by (simp add: findNextJobs_sample_items getConcurrentJobs_fst timeoutUpperBound_def slice0_def
        list_all_iff sample_job_def)

section \<open>Selection under a lifespan\<close>

text \<open>
  Claim C5. With a remaining lifespan \<open>L\<close>, every job \<open>getConcurrentJobs\<close> returns
  has a timeout \<open>T\<close> with \<open>0 < T\<close> and \<open>T \<le> L - 500\<close>; the candidates are exactly the
  stored, inactive, not failed jobs with such a timeout, so a job with timeout 0 is not
  among them. Without a lifespan the candidates are all stored, inactive, not failed
  jobs, whatever their timeout.
\<close>

theorem lifespan_timeout_bound:
  "(\<forall>r \<in> set (fst (getConcurrentJobs gc (Some L) its)). 0 < timeout r \<and> timeout r \<le> L - 500)
   \<and> set (findNextJobs (timeoutUpperBound (Some L)) its) =
       {j \<in> set (objects its). \<not> active j \<and> failed j = None \<and> 0 < timeout j \<and> timeout j \<le> L - 500}
   \<and> set (findNextJobs (timeoutUpperBound None) its) =
       {j \<in> set (objects its). \<not> active j \<and> failed j = None}"
proof -
  have cands: "set (findNextJobs (timeoutUpperBound (Some L)) its) =
       {j \<in> set (objects its). \<not> active j \<and> failed j = None \<and> 0 < timeout j \<and> timeout j \<le> L - 500}"
    by (auto simp: timeoutUpperBound_def set_findNextJobs_Some)
  have batch: "\<forall>r \<in> set (fst (getConcurrentJobs gc (Some L) its)). 0 < timeout r \<and> timeout r \<le> L - 500"
  proof
    fix r assume "r \<in> set (fst (getConcurrentJobs gc (Some L) its))"
    then obtain j where j: "j \<in> set (findNextJobs (timeoutUpperBound (Some L)) its)"
      and r: "r = j\<lparr>active := True\<rparr>"
      using getConcurrentJobs_from_candidates by blast
    from j have "0 < timeout j \<and> timeout j \<le> L - 500"
      unfolding cands by simp
    with r show "0 < timeout r \<and> timeout r \<le> L - 500" by simp
  qed
  have unbounded: "set (findNextJobs (timeoutUpperBound None) its) =
       {j \<in> set (objects its). \<not> active j \<and> failed j = None}"
    by (simp add: timeoutUpperBound_def set_findNextJobs_None)
  show ?thesis
    by (intro conjI batch cands unbounded)
qed

theorem lifespan_timeout_bound_witness:
  "fst (getConcurrentJobs (\<lambda>_. 1) (Some 1500) sample_items) =
     [(sample_job ''b'' ''sync'' 5 1000 20)\<lparr>active := True\<rparr>]
   \<and> timeout (sample_job ''b'' ''sync'' 5 1000 20) = 1500 - 500
   \<and> fst (getConcurrentJobs (\<lambda>_. 1) (Some 1499) sample_items) = []
   \<and> sample_job ''c'' ''mail'' 5 0 30 \<in> set (findNextJobs (timeoutUpperBound None) sample_items)
   \<and> sample_job ''c'' ''mail'' 5 0 30 \<notin> set (findNextJobs (timeoutUpperBound (Some 1500)) sample_items)"
  using lifespan_timeout_bound [of "\<lambda>_. 1" 1500 sample_items]
  by (simp add: getConcurrentJobs_fst timeoutUpperBound_def findNextJobs_sample_items_1001
        findNextJobs_sample_items_1000 findNextJobs_sample_items objects_sample_items slice0_def
        sample_job_def)

section \<open>createJob\<close>

lemma set_storage_get: "set (storage_get ks its) = {j. \<exists>k \<in> set ks. map_of its k = Some j}"
  by (induction ks) (auto simp: storage_get_def split: option.splits)

lemma set_objects:
  "set (objects its) = {j. \<exists>k. prefix JOB_PREFIX k \<and> map_of its k = Some j}"
proof -
  have "k \<in> fst ` set its" if "map_of its k = Some j" for k j
    using that by (metis map_of_SomeD fst_conv image_eqI)
  then show ?thesis
    by (auto simp: objects_def set_storage_get storage_getKeys_def JOB_PREFIX_def)
qed

lemma map_of_create: "map_of (create j its) = (map_of its)(getKey j \<mapsto> j)"
  by (simp add: create_def storage_save_def update_conv')

lemma prefix_getKey: "prefix JOB_PREFIX (getKey j)"
  by (simp add: getKey_def)

lemma create_mem_objects: "j \<in> set (objects (create j its))"
  unfolding set_objects using prefix_getKey by (auto simp: map_of_create)



text \<open>
  Claim C6, as the code has it. A call that passes validation returns normally and the
  store then holds, under the key of its id, a job with the given name and payload,
  \<open>priority = options.priority ?? 0\<close>, \<open>timeout = options.timeout ?? 25000\<close> (so
  an explicit 0 is kept), \<open>active = False\<close>, \<open>created = now\<close>, \<open>failed = None\<close>, no
  \<open>failedAttempts\<close> and no \<open>errors\<close>. The attempts are \<open>options.attempts\<close> when that is
  given and is not 0, and 1 otherwise: an explicit 0 is replaced by 1, which is where
  the code differs from \<open>options.attempts ?? 1\<close>.
\<close>

theorem createJob_persisted_record:
  assumes "nm \<noteq> []" "\<not> lt0 (options_timeout opts)" "\<not> lt0 (options_attempts opts)"
  shows "\<exists>b q' j. createJob (Some nm) pl opts startQueue uuid now q = (Inr b, q')
           \<and> map_of (jobDB q') (getKey j) = Some j
           \<and> j \<in> set (objects (jobDB q'))
           \<and> job_id j = (if payload_id pl = None \<or> payload_id pl = Some [] then uuid
                         else spec_nullish (payload_id pl) uuid)
           \<and> name j = nm
           \<and> payload j = pl
           \<and> priority j = spec_nullish (options_priority opts) 0
           \<and> attempts (data j) = (if options_attempts opts = Some 0 then 1
                                   else spec_nullish (options_attempts opts) 1)
           \<and> timeout j = spec_nullish (options_timeout opts) 25000
           \<and> active j = False
           \<and> created j = now
           \<and> failed j = None
           \<and> failedAttempts (data j) = None
           \<and> errors (data j) = None"
  using assms
  by (auto simp: createJob_def Let_def map_of_create create_mem_objects spec_nullish_def lt0_def
           split: option.splits)

theorem createJob_persisted_record_witness:
  "''mail'' \<noteq> []
   \<and> \<not> lt0 (options_timeout \<lparr> options_timeout = Some 0, options_attempts = Some 3, options_priority = Some 2 \<rparr>)
   \<and> \<not> lt0 (options_attempts \<lparr> options_timeout = Some 0, options_attempts = Some 3, options_priority = Some 2 \<rparr>)
   \<and> objects (jobDB (snd (createJob (Some ''mail'') \<lparr> payload_id = None, payload_body = ''x'' \<rparr>
        \<lparr> options_timeout = Some 0, options_attempts = Some 3, options_priority = Some 2 \<rparr>
        False ''u1'' 7 empty_queue)))
     = [\<lparr> job_id = ''u1'', name = ''mail'', payload = \<lparr> payload_id = None, payload_body = ''x'' \<rparr>,
          data = \<lparr> attempts = 3, failedAttempts = None, errors = None \<rparr>,
          priority = 2, active = False, timeout = 0, created = 7, failed = None \<rparr>]"
  using createJob_persisted_record [of "''mail''"
       "\<lparr> options_timeout = Some 0, options_attempts = Some 3, options_priority = Some 2 \<rparr>"
       "\<lparr> payload_id = None, payload_body = ''x'' \<rparr>" False "''u1''" 7 empty_queue]
  by (simp add: createJob_def lt0_def empty_queue_def create_def storage_save_def getKey_def
        objects_def storage_get_def storage_getKeys_def JOB_PREFIX_def)

text \<open>
  The claim as written fails for \<open>options.attempts = 0\<close>, which passes validation:
  the stored job has 1 attempt, where \<open>options.attempts ?? 1\<close> is 0.
\<close>

theorem createJob_attempts_zero_counterexample:
  "objects (jobDB (snd (createJob (Some ''mail'') \<lparr> payload_id = None, payload_body = [] \<rparr>
        \<lparr> options_timeout = None, options_attempts = Some 0, options_priority = None \<rparr>
        False ''u1'' 7 empty_queue)))
     = [\<lparr> job_id = ''u1'', name = ''mail'', payload = \<lparr> payload_id = None, payload_body = [] \<rparr>,
          data = \<lparr> attempts = 1, failedAttempts = None, errors = None \<rparr>,
          priority = 0, active = False, timeout = 25000, created = 7, failed = None \<rparr>]
   \<and> spec_nullish (Some (0::int)) 1 = 0"
  by (simp add: createJob_def lt0_def empty_queue_def create_def storage_save_def getKey_def
        objects_def storage_get_def storage_getKeys_def JOB_PREFIX_def spec_nullish_def)

section \<open>The store invariant\<close>

text \<open>
  Under \<open>wf_items\<close> the jobs \<open>objects\<close> returns are the values of the association
  list, in order, and their ids are distinct. Every operation of \<^verbatim>\<open>MemoryStorage\<close>
  keeps \<open>wf_items\<close>, and the empty store has it.
\<close>

lemma map_filter_cong_set:
  "(\<And>x. x \<in> set xs \<Longrightarrow> f x = g x) \<Longrightarrow> List.map_filter f xs = List.map_filter g xs"
  by (induction xs) (auto split: option.splits)

lemma storage_get_all_keys:
  "distinct (map fst its) \<Longrightarrow> storage_get (map fst its) its = map snd its"
proof (induction its)
  case Nil
  then show ?case by (simp add: storage_get_def)
next
  case (Cons e its)
  have "List.map_filter (map_of (e # its)) (map fst its) = List.map_filter (map_of its) (map fst its)"
    using Cons.prems by (intro map_filter_cong_set) (cases e, auto)
  with Cons show ?case
    by (cases e) (simp add: storage_get_def)
qed

lemma wf_items_keys: "wf_items its \<Longrightarrow> e \<in> set its \<Longrightarrow> fst e = getKey (snd e)"
  by (simp add: wf_items_def list_all_iff)

lemma objects_wf: "wf_items its \<Longrightarrow> objects its = map snd its"
proof -
  assume wf: "wf_items its"
  have "filter (\<lambda>k. prefix JOB_PREFIX k) (map fst its) = map fst its"
    using wf_items_keys[OF wf] prefix_getKey by (auto simp: filter_id_conv)
  then have "storage_getKeys (Some JOB_PREFIX) its = map fst its"
    by (simp add: storage_getKeys_def)
  with wf show ?thesis
    by (simp add: objects_def storage_get_all_keys wf_items_def)
qed

lemma getKey_eq_iff: "getKey x = getKey y \<longleftrightarrow> job_id x = job_id y"
  by (simp add: getKey_def)

lemma wf_items_delete: "wf_items its \<Longrightarrow> wf_items (delete j its)"
  by (auto simp: wf_items_def delete_def storage_delete_def list_all_iff AList.delete_eq
           intro: distinct_map_filter)

lemma objects_delete:
  assumes "wf_items its"
  shows "objects (delete j its) = filter (\<lambda>x. job_id x \<noteq> job_id j) (objects its)"
proof -
  have "map snd (filter (\<lambda>e. getKey j \<noteq> fst e) its) = filter (\<lambda>x. job_id x \<noteq> job_id j) (map snd its)"
    using wf_items_keys[OF assms]
    by (induction its) (auto simp: getKey_eq_iff)
  moreover have "delete j its = filter (\<lambda>e. getKey j \<noteq> fst e) its"
    by (simp add: delete_def storage_delete_def AList.delete_eq case_prod_unfold)
  ultimately show ?thesis
    using assms wf_items_delete[OF assms, of j] by (simp add: objects_wf)
qed

lemma map_of_merge:
  "map_of (snd (merge j f its)) = (map_of its)(getKey j \<mapsto> assign j f)"
  by (simp add: merge_def save_def map_of_create getKey_def assign_def Let_def split: option.splits)

lemma set_update_subset: "set (AList.update k v al) \<subseteq> insert (k, v) (set al)"
  by (induction al) auto

lemma wf_items_create: "wf_items its \<Longrightarrow> wf_items (create j its)"
  using set_update_subset[of "getKey j" j its]
  by (auto simp: wf_items_def create_def storage_save_def distinct_update list_all_iff)

lemma distinct_ids:
  assumes "wf_items its"
  shows "distinct (map job_id (objects its))"
proof -
  have eq: "map (\<lambda>e. getKey (snd e)) its = map fst its"
    using wf_items_keys[OF assms] by (induction its) auto
  have "distinct (map (\<lambda>e. getKey (snd e)) its)"
    unfolding eq using assms by (simp add: wf_items_def)
  then have "distinct (map (\<lambda>e. job_id (snd e)) its)"
    by (auto simp: distinct_map inj_on_def getKey_eq_iff)
  with assms show ?thesis by (simp add: objects_wf comp_def)
qed

lemma objects_same_id: 
  "wf_items its \<Longrightarrow> x \<in> set (objects its) \<Longrightarrow> y \<in> set (objects its) \<Longrightarrow> job_id x = job_id y \<Longrightarrow> x = y"
  using distinct_ids[of its] by (auto simp: distinct_map inj_on_def)

lemma snd_update_replace:
  "distinct (map fst al) \<Longrightarrow> k \<in> fst ` set al \<Longrightarrow>
   map snd (AList.update k v al) = map (\<lambda>e. if fst e = k then v else snd e) al"
  by (induction al) (auto simp: rev_image_eqI)

lemma snd_update_append:
  "k \<notin> fst ` set al \<Longrightarrow> map snd (AList.update k v al) = map snd al @ [v]"
  by (induction al) auto

lemma objects_create:
  assumes "wf_items its"
  shows "objects (create j its) =
           (if job_id j \<in> job_id ` set (objects its)
            then map (\<lambda>x. if job_id x = job_id j then j else x) (objects its)
            else objects its @ [j])"
proof -
  have keys: "fst e = getKey (snd e)" if "e \<in> set its" for e
    using wf_items_keys[OF assms that] .
  have present: "getKey j \<in> fst ` set its \<longleftrightarrow> job_id j \<in> job_id ` set (objects its)"
    using keys by (force simp: objects_wf[OF assms] getKey_eq_iff image_iff)
  have "map (\<lambda>e. if fst e = getKey j then j else snd e) its =
        map (\<lambda>x. if job_id x = job_id j then j else x) (map snd its)"
    using keys by (auto simp: getKey_eq_iff)
  then show ?thesis
    using assms present wf_items_create[OF assms, of j]
    by (simp add: objects_wf create_def storage_save_def snd_update_replace snd_update_append wf_items_def)
qed

lemma saveAll_Cons: "saveAll (j # js) its = saveAll js (create j its)"
  by (simp add: saveAll_def create_def)

lemma saveAll_Nil: "saveAll [] its = its"
  by (simp add: saveAll_def)

lemma wf_items_saveAll: "wf_items its \<Longrightarrow> wf_items (saveAll js its)"
  by (induction js arbitrary: its) (simp_all add: saveAll_Nil saveAll_Cons wf_items_create)

lemma objects_saveAll_map:
  assumes "wf_items its" "set B \<subseteq> set (objects its)" "distinct B" "\<And>x. job_id (f x) = job_id x"
  shows "objects (saveAll (map f B) its) = map (\<lambda>x. if x \<in> set B then f x else x) (objects its)"
  using assms(1,2,3)
proof (induction B arbitrary: its)
  case Nil
  then show ?case by (simp add: saveAll_Nil)
next
  case (Cons b B)
  let ?its1 = "create (f b) its"
  have wf1: "wf_items ?its1" using Cons.prems(1) by (rule wf_items_create)
  have b: "b \<in> set (objects its)" using Cons.prems(2) by simp
  have obj1: "objects ?its1 = map (\<lambda>x. if x = b then f b else x) (objects its)"
  proof -
    have "job_id (f b) \<in> job_id ` set (objects its)" using b assms(4) by force
    then have "objects ?its1 = map (\<lambda>x. if job_id x = job_id (f b) then f b else x) (objects its)"
      using objects_create[OF Cons.prems(1), of "f b"] by simp
    also have "\<dots> = map (\<lambda>x. if x = b then f b else x) (objects its)"
      using objects_same_id[OF Cons.prems(1) _ b] assms(4) by auto
    finally show ?thesis .
  qed
  have sub1: "set B \<subseteq> set (objects ?its1)"
    using Cons.prems(2,3) unfolding obj1 by auto
  have fb: "f b \<notin> set B"
  proof
    assume "f b \<in> set B"
    then have "f b \<in> set (objects its)" using Cons.prems(2) by auto
    then have "f b = b" using objects_same_id[OF Cons.prems(1) _ b] assms(4) by blast
    with \<open>f b \<in> set B\<close> Cons.prems(3) show False by simp
  qed
  have "objects (saveAll (map f B) ?its1) = map (\<lambda>x. if x \<in> set B then f x else x) (objects ?its1)"
    using Cons.IH[OF wf1 sub1] Cons.prems(3) by simp
  also have "\<dots> = map (\<lambda>x. if x \<in> set (b # B) then f x else x) (objects its)"
    unfolding obj1 using fb by auto
  finally show ?case by (simp add: saveAll_Cons)
qed

lemma distinct_objects: "wf_items its \<Longrightarrow> distinct (objects its)"
  using distinct_ids[of its] by (simp add: distinct_map)

lemma objects_resetFailedJobs:
  assumes "wf_items its"
  shows "objects (resetFailedJobs its) = map (\<lambda>j. j\<lparr>failed := None\<rparr>) (objects its)"
  using objects_saveAll_map[OF assms subset_refl distinct_objects[OF assms], of "\<lambda>j. j\<lparr>failed := None\<rparr>"]
  by (simp add: resetFailedJobs_def)

lemma distinct_findNextJobs: "wf_items its \<Longrightarrow> distinct (findNextJobs b its)"
  by (cases b) (simp_all add: findNextJobs_def orderBy_def distinct_objects)

lemma findNextJobs_subset: "set (findNextJobs b its) \<subseteq> set (objects its)"
  using findNextJobs_eligible by blast

lemma distinct_slice0: "distinct xs \<Longrightarrow> distinct (slice0 xs n)"
  by (simp add: slice0_def)

lemma getConcurrentJobs_batch:
  assumes "wf_items its"
  obtains B where
    "fst (getConcurrentJobs gc l its) = map (\<lambda>j. j\<lparr>active := True\<rparr>) B"
    "snd (getConcurrentJobs gc l its) = saveAll (map (\<lambda>j. j\<lparr>active := True\<rparr>) B) its"
    "set B \<subseteq> set (findNextJobs (timeoutUpperBound l) its)"
    "distinct B"
proof (cases "findNextJobs (timeoutUpperBound l) its")
  case Nil
  show ?thesis
    by (rule that[of "[]"]) (simp_all add: getConcurrentJobs_def Nil saveAll_Nil)
next
  case (Cons nextJob rest)
  let ?B = "slice0 (filter (\<lambda>j. name j = name nextJob) (findNextJobs (timeoutUpperBound l) its))
              (gc (name nextJob))"
  have d: "distinct ?B"
    using distinct_findNextJobs[OF assms] by (intro distinct_slice0) simp
  have s: "set ?B \<subseteq> set (findNextJobs (timeoutUpperBound l) its)"
    using set_slice0 by fastforce
  have f: "fst (getConcurrentJobs gc l its) = map (\<lambda>j. j\<lparr>active := True\<rparr>) ?B"
    by (simp add: getConcurrentJobs_fst Cons)
  have g: "snd (getConcurrentJobs gc l its) = saveAll (map (\<lambda>j. j\<lparr>active := True\<rparr>) ?B) its"
    by (simp add: getConcurrentJobs_def markActive_def Let_def Cons)
  show ?thesis
    by (rule that[of ?B]) (rule f g s d)+
qed

lemma objects_getConcurrentJobs:
  assumes "wf_items its"
  shows "objects (snd (getConcurrentJobs gc l its)) =
           map (\<lambda>x. if job_id x \<in> job_id ` set (fst (getConcurrentJobs gc l its))
                     then x\<lparr>active := True\<rparr> else x) (objects its)"
proof -
  obtain B where B:
    "fst (getConcurrentJobs gc l its) = map (\<lambda>j. j\<lparr>active := True\<rparr>) B"
    "snd (getConcurrentJobs gc l its) = saveAll (map (\<lambda>j. j\<lparr>active := True\<rparr>) B) its"
    "set B \<subseteq> set (findNextJobs (timeoutUpperBound l) its)"
    "distinct B"
    using getConcurrentJobs_batch[OF assms] by blast
  have sub: "set B \<subseteq> set (objects its)"
    using B(3) findNextJobs_subset by blast
  have "objects (saveAll (map (\<lambda>j. j\<lparr>active := True\<rparr>) B) its) =
          map (\<lambda>x. if x \<in> set B then x\<lparr>active := True\<rparr> else x) (objects its)"
    using objects_saveAll_map[OF assms sub B(4), of "\<lambda>j. j\<lparr>active := True\<rparr>"] by simp
  also have "\<dots> = map (\<lambda>x. if job_id x \<in> job_id ` set B then x\<lparr>active := True\<rparr> else x) (objects its)"
  proof (rule map_cong[OF refl])
    fix x assume x: "x \<in> set (objects its)"
    have "x \<in> set B \<longleftrightarrow> job_id x \<in> job_id ` set B"
    proof
      assume "x \<in> set B"
      then show "job_id x \<in> job_id ` set B" by simp
    next
      assume "job_id x \<in> job_id ` set B"
      then obtain b where b: "b \<in> set B" "job_id b = job_id x" by auto
      from b(1) sub have "b \<in> set (objects its)" by auto
      from objects_same_id[OF assms this x b(2)] b(1) show "x \<in> set B" by simp
    qed
    then show "(if x \<in> set B then x\<lparr>active := True\<rparr> else x) =
               (if job_id x \<in> job_id ` set B then x\<lparr>active := True\<rparr> else x)"
      by simp
  qed
  finally show ?thesis
    by (simp add: B(1,2) image_image)
qed

lemma wf_items_getConcurrentJobs:
  assumes "wf_items its" shows "wf_items (snd (getConcurrentJobs gc l its))"
  using getConcurrentJobs_batch[OF assms, of gc l] wf_items_saveAll[OF assms] by metis

lemma weight_active [simp]: "weight (x\<lparr>active := a\<rparr>) = weight x"
  by (simp add: weight_def failures_def)

lemma potential_getConcurrentJobs:
  assumes "wf_items its"
  shows "potential (snd (getConcurrentJobs gc l its)) = potential its"
  by (simp add: potential_def objects_getConcurrentJobs[OF assms] comp_def if_distrib cong: if_cong)

lemma wf_items_resetFailedJobs: "wf_items its \<Longrightarrow> wf_items (resetFailedJobs its)"
  by (simp add: resetFailedJobs_def wf_items_saveAll)

lemma wf_items_sample: "wf_items sample_items"
  by (simp add: wf_items_def sample_items_def create_def storage_save_def getKey_def JOB_PREFIX_def sample_job_def)

lemma createJob_valid_store:
  assumes "nm \<noteq> []" "\<not> lt0 (options_timeout opts)" "\<not> lt0 (options_attempts opts)"
    and "payload_id pl = Some i" "i \<noteq> []"
  shows "\<exists>jn. jobDB (snd (createJob (Some nm) pl opts startQueue uuid now q))
                = create jn (if executeFailedJobsOnStart q then resetFailedJobs (jobDB q) else jobDB q)
          \<and> job_id jn = i \<and> name jn = nm \<and> payload jn = pl \<and> created jn = now \<and> active jn = False
          \<and> failed jn = None \<and> failedAttempts (data jn) = None \<and> errors (data jn) = None"
proof (cases "executeFailedJobsOnStart q")
  case True
  with assms show ?thesis
    by (simp add: createJob_def Let_def) (rule exI, intro conjI, rule refl, simp_all)
next
  case False
  with assms show ?thesis
    by (simp add: createJob_def Let_def) (rule exI, intro conjI, rule refl, simp_all)
qed

lemmas sample_eval = sample_items_def create_def storage_save_def getKey_def JOB_PREFIX_def sample_job_def
  objects_def storage_get_def storage_getKeys_def

section \<open>The batch of getConcurrentJobs\<close>

text \<open>
  Claim C2. When there is no candidate, \<open>getConcurrentJobs\<close> returns the empty batch
  and leaves the store as it is. When the candidates are \<open>nextJob # rest\<close> (and the
  concurrency of the head's name is not negative), the batch is made of the first
  \<open>getConcurrency (name nextJob)\<close> candidates that have the head's name, in candidate
  order, so it has at most that many jobs, all with that name. In the store, exactly
  the records whose id is in the batch have \<open>active\<close> set; every other record, and
  the order of the records, is unchanged.
\<close>

theorem getConcurrentJobs_same_name_capped:
  assumes "wf_items its"
  shows "(findNextJobs (timeoutUpperBound l) its = [] \<longrightarrow> getConcurrentJobs gc l its = ([], its))
    \<and> (findNextJobs (timeoutUpperBound l) its = nextJob # rest \<and> 0 \<le> gc (name nextJob) \<longrightarrow>
          fst (getConcurrentJobs gc l its) =
            map (\<lambda>j. j\<lparr>active := True\<rparr>)
              (take (nat (gc (name nextJob))) (filter (\<lambda>j. name j = name nextJob) (nextJob # rest)))
          \<and> int (length (fst (getConcurrentJobs gc l its))) \<le> gc (name nextJob)
          \<and> (\<forall>r \<in> set (fst (getConcurrentJobs gc l its)). name r = name nextJob))
    \<and> objects (snd (getConcurrentJobs gc l its)) =
          map (\<lambda>x. if job_id x \<in> job_id ` set (fst (getConcurrentJobs gc l its))
                    then x\<lparr>active := True\<rparr> else x) (objects its)"
proof -
  have empty: "findNextJobs (timeoutUpperBound l) its = [] \<longrightarrow> getConcurrentJobs gc l its = ([], its)"
    by (simp add: getConcurrentJobs_def)
  have batch: "findNextJobs (timeoutUpperBound l) its = nextJob # rest \<and> 0 \<le> gc (name nextJob) \<longrightarrow>
          fst (getConcurrentJobs gc l its) =
            map (\<lambda>j. j\<lparr>active := True\<rparr>)
              (take (nat (gc (name nextJob))) (filter (\<lambda>j. name j = name nextJob) (nextJob # rest)))
          \<and> int (length (fst (getConcurrentJobs gc l its))) \<le> gc (name nextJob)
          \<and> (\<forall>r \<in> set (fst (getConcurrentJobs gc l its)). name r = name nextJob)"
  proof (intro impI, elim conjE)
    assume c: "findNextJobs (timeoutUpperBound l) its = nextJob # rest" and g: "0 \<le> gc (name nextJob)"
    have eq: "fst (getConcurrentJobs gc l its) =
            map (\<lambda>j. j\<lparr>active := True\<rparr>)
              (take (nat (gc (name nextJob))) (filter (\<lambda>j. name j = name nextJob) (nextJob # rest)))"
      using g by (simp add: getConcurrentJobs_fst c slice0_def)
    have len: "int (length (fst (getConcurrentJobs gc l its))) \<le> gc (name nextJob)"
      unfolding eq using g by simp
    have names: "\<forall>r \<in> set (fst (getConcurrentJobs gc l its)). name r = name nextJob"
      unfolding eq by (auto dest: in_set_takeD)
    show "fst (getConcurrentJobs gc l its) =
            map (\<lambda>j. j\<lparr>active := True\<rparr>)
              (take (nat (gc (name nextJob))) (filter (\<lambda>j. name j = name nextJob) (nextJob # rest)))
          \<and> int (length (fst (getConcurrentJobs gc l its))) \<le> gc (name nextJob)
          \<and> (\<forall>r \<in> set (fst (getConcurrentJobs gc l its)). name r = name nextJob)"
      by (intro conjI eq len names)
  qed
  show ?thesis
    by (intro conjI empty batch objects_getConcurrentJobs[OF assms])
qed

lemma getConcurrentJobs_sample_items:
  "fst (getConcurrentJobs (\<lambda>_. 1) None sample_items) = [(sample_job ''b'' ''sync'' 5 1000 20)\<lparr>active := True\<rparr>]"
  by (simp add: getConcurrentJobs_fst timeoutUpperBound_def findNextJobs_sample_items slice0_def sample_job_def)

theorem getConcurrentJobs_same_name_capped_witness:
  "wf_items sample_items
   \<and> findNextJobs (timeoutUpperBound None) sample_items =
        sample_job ''b'' ''sync'' 5 1000 20 # [sample_job ''c'' ''mail'' 5 0 30, sample_job ''a'' ''mail'' 0 25000 10]
   \<and> (0::int) \<le> 1
   \<and> fst (getConcurrentJobs (\<lambda>_. 1) None sample_items) = [(sample_job ''b'' ''sync'' 5 1000 20)\<lparr>active := True\<rparr>]
   \<and> objects (snd (getConcurrentJobs (\<lambda>_. 1) None sample_items)) =
        [sample_job ''a'' ''mail'' 0 25000 10, (sample_job ''b'' ''sync'' 5 1000 20)\<lparr>active := True\<rparr>,
         sample_job ''c'' ''mail'' 5 0 30]"
proof -
  have cands: "findNextJobs (timeoutUpperBound None) sample_items =
        sample_job ''b'' ''sync'' 5 1000 20 # [sample_job ''c'' ''mail'' 5 0 30, sample_job ''a'' ''mail'' 0 25000 10]"
    by (simp add: timeoutUpperBound_def findNextJobs_sample_items)
  have ids: "job_id ` set (fst (getConcurrentJobs (\<lambda>_. 1) None sample_items)) = {''b''}"
    by (simp add: getConcurrentJobs_sample_items sample_job_def)
  from getConcurrentJobs_same_name_capped [OF wf_items_sample, of None "\<lambda>_. 1" "sample_job ''b'' ''sync'' 5 1000 20"
      "[sample_job ''c'' ''mail'' 5 0 30, sample_job ''a'' ''mail'' 0 25000 10]"]
  have "objects (snd (getConcurrentJobs (\<lambda>_. 1) None sample_items)) =
          map (\<lambda>x. if job_id x \<in> {''b''} then x\<lparr>active := True\<rparr> else x) (objects sample_items)"
    unfolding ids by blast
  then have "objects (snd (getConcurrentJobs (\<lambda>_. 1) None sample_items)) =
        [sample_job ''a'' ''mail'' 0 25000 10, (sample_job ''b'' ''sync'' 5 1000 20)\<lparr>active := True\<rparr>,
         sample_job ''c'' ''mail'' 5 0 30]"
    by (simp add: objects_sample_items sample_job_def)
  with cands show ?thesis
    by (simp add: wf_items_sample getConcurrentJobs_sample_items)
qed

section \<open>processJob\<close>

text \<open>
  Claim C8. When \<open>executeJob\<close> resolves with a result, \<open>processJob\<close> calls \<open>onStart\<close>,
  then \<open>onSuccess\<close> and \<open>onComplete\<close> with that result, and the store afterwards
  holds exactly the records it held before except the one with the job's id: the job is
  gone from \<open>objects\<close>, and no \<open>failedAttempts\<close>, \<open>errors\<close> or \<open>failed\<close> of any
  record is touched.
\<close>

theorem processJob_success:
  assumes "wf_items its"
  shows "fst (processJob (Resolved r) now j its) =
           [Callback onStart (name j) (job_id j) (payload j) None,
            Callback onSuccess (name j) (job_id j) (payload j) (Some r),
            Callback onComplete (name j) (job_id j) (payload j) (Some r)]
         \<and> objects (snd (processJob (Resolved r) now j its)) =
             filter (\<lambda>x. job_id x \<noteq> job_id j) (objects its)
         \<and> j \<notin> set (objects (snd (processJob (Resolved r) now j its)))
         \<and> wf_items (snd (processJob (Resolved r) now j its))"
  using assms
  by (simp add: processJob_def processJob_settle_def Let_def objects_delete wf_items_delete)

theorem processJob_success_witness:
  "wf_items sample_items
   \<and> processJob (Resolved ''ok'') 99 ((sample_job ''b'' ''sync'' 5 1000 20)\<lparr>active := True\<rparr>) sample_items
     = ([Callback onStart ''sync'' ''b'' \<lparr> payload_id = Some ''b'', payload_body = [] \<rparr> None,
         Callback onSuccess ''sync'' ''b'' \<lparr> payload_id = Some ''b'', payload_body = [] \<rparr> (Some ''ok''),
         Callback onComplete ''sync'' ''b'' \<lparr> payload_id = Some ''b'', payload_body = [] \<rparr> (Some ''ok'')],
        [(''@queue:Job-a'', sample_job ''a'' ''mail'' 0 25000 10),
         (''@queue:Job-c'', sample_job ''c'' ''mail'' 5 0 30)])
   \<and> objects (snd (processJob (Resolved ''ok'') 99 ((sample_job ''b'' ''sync'' 5 1000 20)\<lparr>active := True\<rparr>) sample_items))
     = [sample_job ''a'' ''mail'' 0 25000 10, sample_job ''c'' ''mail'' 5 0 30]"
  using processJob_success [OF wf_items_sample, of "''ok''" 99 "(sample_job ''b'' ''sync'' 5 1000 20)\<lparr>active := True\<rparr>"]
  by (simp add: wf_items_sample objects_sample_items)
     (simp add: processJob_def processJob_settle_def Let_def delete_def storage_delete_def sample_eval)

text \<open>
  Claim C3. When \<open>executeJob\<close> rejects, \<open>processJob\<close> stores the job under its key
  with \<open>failedAttempts\<close> one more than before (1 when it was absent), the error message
  appended to \<open>errors\<close>, \<open>active = False\<close>, and \<open>failed\<close> set to the current time
  when the new \<open>failedAttempts\<close> has reached \<open>attempts\<close> and left as it was otherwise;
  no other key of the store changes. It calls \<open>onStart\<close> and \<open>onFailure\<close>, then
  \<open>onFailed\<close> and \<open>onComplete\<close> (without a result) exactly when the attempts are
  used up, and never \<open>onSuccess\<close>. For a job that was not failed already, \<open>failed\<close>
  is therefore set if and only if the attempts are used up.
\<close>

theorem processJob_failure:
  "fst (processJob (Rejected message) now j its) =
     [Callback onStart (name j) (job_id j) (payload j) None,
      Callback onFailure (name j) (job_id j) (payload j) None]
     @ (if failures j + 1 \<ge> attempts (data j)
        then [Callback onFailed (name j) (job_id j) (payload j) None,
              Callback onComplete (name j) (job_id j) (payload j) None]
        else [])
   \<and> map_of (snd (processJob (Rejected message) now j its)) =
       (map_of its)(getKey j \<mapsto>
          j\<lparr> data := (data j)\<lparr> failedAttempts := Some (failures j + 1),
                                errors := Some ((case errors (data j) of None \<Rightarrow> [] | Some es \<Rightarrow> es) @ [message]) \<rparr>,
             active := False,
             failed := (if failures j + 1 \<ge> attempts (data j) then Some now else failed j) \<rparr>)
   \<and> (\<forall>c \<in> set (fst (processJob (Rejected message) now j its)).
         case c of Callback ev _ _ _ _ \<Rightarrow> ev \<noteq> onSuccess)
   \<and> (\<exists>j' \<in> set (objects (snd (processJob (Rejected message) now j its))).
         map_of (snd (processJob (Rejected message) now j its)) (getKey j) = Some j'
         \<and> job_id j' = job_id j
         \<and> failedAttempts (data j') = Some (failures j + 1)
         \<and> active j' = False
         \<and> (failed j = None \<longrightarrow> (failed j' \<noteq> None) = (failures j + 1 \<ge> attempts (data j))))"
proof -
  let ?its' = "snd (processJob (Rejected message) now j its)"
  let ?j' = "j\<lparr> data := (data j)\<lparr> failedAttempts := Some (failures j + 1),
                                errors := Some ((case errors (data j) of None \<Rightarrow> [] | Some es \<Rightarrow> es) @ [message]) \<rparr>,
             active := False,
             failed := (if failures j + 1 \<ge> attempts (data j) then Some now else failed j) \<rparr>"
  have trace: "fst (processJob (Rejected message) now j its) =
     [Callback onStart (name j) (job_id j) (payload j) None,
      Callback onFailure (name j) (job_id j) (payload j) None]
     @ (if failures j + 1 \<ge> attempts (data j)
        then [Callback onFailed (name j) (job_id j) (payload j) None,
              Callback onComplete (name j) (job_id j) (payload j) None]
        else [])"
    by (simp add: processJob_def processJob_settle_def failures_def Let_def split: option.splits)
  have stored: "map_of ?its' = (map_of its)(getKey j \<mapsto> ?j')"
    by (auto simp: processJob_def processJob_settle_def map_of_merge assign_def failures_def Let_def
        split: option.splits)
  have no_success: "\<forall>c \<in> set (fst (processJob (Rejected message) now j its)).
         case c of Callback ev _ _ _ _ \<Rightarrow> ev \<noteq> onSuccess"
    unfolding trace by auto
  have "?j' \<in> set (objects ?its')"
    unfolding set_objects using prefix_getKey[of j] by (auto simp: stored)
  then have stored_job: "\<exists>j' \<in> set (objects ?its').
         map_of ?its' (getKey j) = Some j'
         \<and> job_id j' = job_id j
         \<and> failedAttempts (data j') = Some (failures j + 1)
         \<and> active j' = False
         \<and> (failed j = None \<longrightarrow> (failed j' \<noteq> None) = (failures j + 1 \<ge> attempts (data j)))"
    by (intro bexI[of _ ?j']) (simp_all add: stored)
  show ?thesis
    by (intro conjI trace stored no_success stored_job)
qed

theorem processJob_failure_witness:
  "fst (processJob (Rejected ''boom'') 99 ((sample_job ''b'' ''sync'' 5 1000 20)\<lparr>active := True\<rparr>) sample_items)
     = [Callback onStart ''sync'' ''b'' \<lparr> payload_id = Some ''b'', payload_body = [] \<rparr> None,
        Callback onFailure ''sync'' ''b'' \<lparr> payload_id = Some ''b'', payload_body = [] \<rparr> None,
        Callback onFailed ''sync'' ''b'' \<lparr> payload_id = Some ''b'', payload_body = [] \<rparr> None,
        Callback onComplete ''sync'' ''b'' \<lparr> payload_id = Some ''b'', payload_body = [] \<rparr> None]
   \<and> snd (processJob (Rejected ''boom'') 99 ((sample_job ''b'' ''sync'' 5 1000 20)\<lparr>active := True\<rparr>) sample_items)
     = [(''@queue:Job-a'', sample_job ''a'' ''mail'' 0 25000 10),
        (''@queue:Job-b'', (sample_job ''b'' ''sync'' 5 1000 20)
             \<lparr> data := \<lparr> attempts = 1, failedAttempts = Some 1, errors = Some [''boom''] \<rparr>,
               failed := Some 99 \<rparr>),
        (''@queue:Job-c'', sample_job ''c'' ''mail'' 5 0 30)]
   \<and> processJob (Rejected ''boom'') 99
          ((sample_job ''b'' ''sync'' 5 1000 20)\<lparr>data := \<lparr> attempts = 2, failedAttempts = None, errors = None \<rparr>\<rparr>)
          sample_items
     = ([Callback onStart ''sync'' ''b'' \<lparr> payload_id = Some ''b'', payload_body = [] \<rparr> None,
         Callback onFailure ''sync'' ''b'' \<lparr> payload_id = Some ''b'', payload_body = [] \<rparr> None],
        [(''@queue:Job-a'', sample_job ''a'' ''mail'' 0 25000 10),
         (''@queue:Job-b'', (sample_job ''b'' ''sync'' 5 1000 20)
             \<lparr> data := \<lparr> attempts = 2, failedAttempts = Some 1, errors = Some [''boom''] \<rparr> \<rparr>),
         (''@queue:Job-c'', sample_job ''c'' ''mail'' 5 0 30)])"
proof -
  let ?j = "(sample_job ''b'' ''sync'' 5 1000 20)\<lparr>active := True\<rparr>"
  have "fst (processJob (Rejected ''boom'') 99 ?j sample_items) =
     [Callback onStart (name ?j) (job_id ?j) (payload ?j) None,
      Callback onFailure (name ?j) (job_id ?j) (payload ?j) None]
     @ (if failures ?j + 1 \<ge> attempts (data ?j)
        then [Callback onFailed (name ?j) (job_id ?j) (payload ?j) None,
              Callback onComplete (name ?j) (job_id ?j) (payload ?j) None]
        else [])"
    using processJob_failure [of "''boom''" 99 ?j sample_items] by (rule conjunct1)
  then have trace: "fst (processJob (Rejected ''boom'') 99 ?j sample_items)
     = [Callback onStart ''sync'' ''b'' \<lparr> payload_id = Some ''b'', payload_body = [] \<rparr> None,
        Callback onFailure ''sync'' ''b'' \<lparr> payload_id = Some ''b'', payload_body = [] \<rparr> None,
        Callback onFailed ''sync'' ''b'' \<lparr> payload_id = Some ''b'', payload_body = [] \<rparr> None,
        Callback onComplete ''sync'' ''b'' \<lparr> payload_id = Some ''b'', payload_body = [] \<rparr> None]"
    by (simp add: failures_def sample_job_def)
  have store: "snd (processJob (Rejected ''boom'') 99 ?j sample_items)
     = [(''@queue:Job-a'', sample_job ''a'' ''mail'' 0 25000 10),
        (''@queue:Job-b'', (sample_job ''b'' ''sync'' 5 1000 20)
             \<lparr> data := \<lparr> attempts = 1, failedAttempts = Some 1, errors = Some [''boom''] \<rparr>,
               failed := Some 99 \<rparr>),
        (''@queue:Job-c'', sample_job ''c'' ''mail'' 5 0 30)]"
    by (simp add: processJob_def processJob_settle_def Let_def merge_def save_def assign_def sample_eval)
  have retry: "processJob (Rejected ''boom'') 99
          ((sample_job ''b'' ''sync'' 5 1000 20)\<lparr>data := \<lparr> attempts = 2, failedAttempts = None, errors = None \<rparr>\<rparr>)
          sample_items
     = ([Callback onStart ''sync'' ''b'' \<lparr> payload_id = Some ''b'', payload_body = [] \<rparr> None,
         Callback onFailure ''sync'' ''b'' \<lparr> payload_id = Some ''b'', payload_body = [] \<rparr> None],
        [(''@queue:Job-a'', sample_job ''a'' ''mail'' 0 25000 10),
         (''@queue:Job-b'', (sample_job ''b'' ''sync'' 5 1000 20)
             \<lparr> data := \<lparr> attempts = 2, failedAttempts = Some 1, errors = Some [''boom''] \<rparr> \<rparr>),
         (''@queue:Job-c'', sample_job ''c'' ''mail'' 5 0 30)])"
    by (simp add: processJob_def processJob_settle_def Let_def merge_def save_def assign_def sample_eval)
  show ?thesis
    by (intro conjI trace store retry)
qed

section \<open>Records are keyed by id\<close>

text \<open>
  Claim C10. In a store of \<^verbatim>\<open>MemoryStorage\<close>, no two records of \<open>objects\<close> have the
  same id. \<open>create\<close> keeps that: a job whose id is present replaces the record with
  that id, in place, and a job whose id is new is added at the end. So a valid
  \<open>createJob\<close> whose \<open>payload.id\<close> is the id of a stored job leaves the number and
  the ids of the records as they were, and the record with that id is the new job.
\<close>

theorem create_keyed_by_id:
  assumes "wf_items (jobDB q)"
  shows "distinct (map job_id (objects (jobDB q)))
     \<and> wf_items (create j (jobDB q))
     \<and> (job_id j \<in> job_id ` set (objects (jobDB q)) \<longrightarrow>
          objects (create j (jobDB q)) = map (\<lambda>x. if job_id x = job_id j then j else x) (objects (jobDB q)))
     \<and> (job_id j \<notin> job_id ` set (objects (jobDB q)) \<longrightarrow>
          objects (create j (jobDB q)) = objects (jobDB q) @ [j])
     \<and> (nm \<noteq> [] \<and> \<not> lt0 (options_timeout opts) \<and> \<not> lt0 (options_attempts opts)
          \<and> payload_id pl = Some i \<and> i \<noteq> [] \<and> i \<in> job_id ` set (objects (jobDB q)) \<longrightarrow>
          length (objects (jobDB (snd (createJob (Some nm) pl opts startQueue uuid now q))))
            = length (objects (jobDB q))
          \<and> map job_id (objects (jobDB (snd (createJob (Some nm) pl opts startQueue uuid now q))))
            = map job_id (objects (jobDB q))
          \<and> (\<forall>x \<in> set (objects (jobDB (snd (createJob (Some nm) pl opts startQueue uuid now q)))).
                job_id x = i \<longrightarrow> name x = nm \<and> payload x = pl \<and> created x = now
                  \<and> active x = False \<and> failed x = None \<and> failedAttempts (data x) = None
                  \<and> errors (data x) = None))"
proof -
  let ?db = "jobDB q"
  let ?db1 = "if executeFailedJobsOnStart q then resetFailedJobs ?db else ?db"
  have wf1: "wf_items ?db1"
    using assms by (simp add: wf_items_resetFailedJobs)
  have ids1: "map job_id (objects ?db1) = map job_id (objects ?db)"
    using assms by (simp add: objects_resetFailedJobs comp_def)
  have created: "nm \<noteq> [] \<and> \<not> lt0 (options_timeout opts) \<and> \<not> lt0 (options_attempts opts)
          \<and> payload_id pl = Some i \<and> i \<noteq> [] \<and> i \<in> job_id ` set (objects (jobDB q)) \<longrightarrow>
          length (objects (jobDB (snd (createJob (Some nm) pl opts startQueue uuid now q))))
            = length (objects (jobDB q))
          \<and> map job_id (objects (jobDB (snd (createJob (Some nm) pl opts startQueue uuid now q))))
            = map job_id (objects (jobDB q))
          \<and> (\<forall>x \<in> set (objects (jobDB (snd (createJob (Some nm) pl opts startQueue uuid now q)))).
                job_id x = i \<longrightarrow> name x = nm \<and> payload x = pl \<and> created x = now
                  \<and> active x = False \<and> failed x = None \<and> failedAttempts (data x) = None
                  \<and> errors (data x) = None)"
  proof (intro impI, elim conjE)
    assume valid: "nm \<noteq> []" "\<not> lt0 (options_timeout opts)" "\<not> lt0 (options_attempts opts)"
      and pid: "payload_id pl = Some i" "i \<noteq> []" and present: "i \<in> job_id ` set (objects (jobDB q))"
    obtain jn where stored: "jobDB (snd (createJob (Some nm) pl opts startQueue uuid now q)) = create jn ?db1"
      and jn: "job_id jn = i" "name jn = nm" "payload jn = pl" "created jn = now" "active jn = False"
        "failed jn = None" "failedAttempts (data jn) = None" "errors (data jn) = None"
      using createJob_valid_store[OF valid pid] by blast
    have "i \<in> set (map job_id (objects ?db1))"
      using present unfolding ids1 by simp
    then have obj: "objects (create jn ?db1) = map (\<lambda>x. if job_id x = i then jn else x) (objects ?db1)"
      using objects_create[OF wf1, of jn] jn(1) by simp
    have len: "length (objects (create jn ?db1)) = length (objects ?db)"
      unfolding obj using ids1 by (metis length_map)
    have ids: "map job_id (objects (create jn ?db1)) = map job_id (objects ?db)"
      unfolding obj ids1[symmetric] using jn(1) by (simp add: comp_def if_distrib cong: if_cong)
    have new: "\<forall>x \<in> set (objects (create jn ?db1)). job_id x = i \<longrightarrow> x = jn"
      unfolding obj by auto
    show "length (objects (jobDB (snd (createJob (Some nm) pl opts startQueue uuid now q))))
            = length (objects (jobDB q))
          \<and> map job_id (objects (jobDB (snd (createJob (Some nm) pl opts startQueue uuid now q))))
            = map job_id (objects (jobDB q))
          \<and> (\<forall>x \<in> set (objects (jobDB (snd (createJob (Some nm) pl opts startQueue uuid now q)))).
                job_id x = i \<longrightarrow> name x = nm \<and> payload x = pl \<and> created x = now
                  \<and> active x = False \<and> failed x = None \<and> failedAttempts (data x) = None
                  \<and> errors (data x) = None)"
      unfolding stored using len ids new jn by blast
  qed
  show ?thesis
    using objects_create[OF assms, of j]
    by (intro conjI distinct_ids[OF assms] wf_items_create[OF assms] created) simp_all
qed

theorem create_keyed_by_id_witness:
  "wf_items (jobDB \<lparr> jobDB = sample_items, status = Inactive, executeFailedJobsOnStart = False \<rparr>)
   \<and> ''mail'' \<noteq> []
   \<and> ''b'' \<in> job_id ` set (objects sample_items)
   \<and> objects (jobDB (snd (createJob (Some ''mail'') \<lparr> payload_id = Some ''b'', payload_body = ''x'' \<rparr>
        \<lparr> options_timeout = None, options_attempts = None, options_priority = None \<rparr> False ''u1'' 77
        \<lparr> jobDB = sample_items, status = Inactive, executeFailedJobsOnStart = False \<rparr>)))
     = [sample_job ''a'' ''mail'' 0 25000 10,
        \<lparr> job_id = ''b'', name = ''mail'', payload = \<lparr> payload_id = Some ''b'', payload_body = ''x'' \<rparr>,
          data = \<lparr> attempts = 1, failedAttempts = None, errors = None \<rparr>,
          priority = 0, active = False, timeout = 25000, created = 77, failed = None \<rparr>,
        sample_job ''c'' ''mail'' 5 0 30]"
  using create_keyed_by_id [of "\<lparr> jobDB = sample_items, status = Inactive, executeFailedJobsOnStart = False \<rparr>"
      "sample_job ''b'' ''sync'' 5 1000 20" "''mail''"
      "\<lparr> options_timeout = None, options_attempts = None, options_priority = None \<rparr>"
      "\<lparr> payload_id = Some ''b'', payload_body = ''x'' \<rparr>" "''b''" False "''u1''" 77]
  by (simp add: wf_items_sample objects_sample_items)
     (simp add: createJob_def lt0_def sample_eval)

section \<open>The run loop\<close>

text \<open>
  One failed or finished job lowers the measure \<open>potential\<close>, so every iteration that
  has a batch lowers it, and the loop ends within \<open>potential\<close> iterations after the
  first. Along the way no record is added and no \<open>failed\<close> is cleared.
\<close>

lemma sum_list_filter_one:
  fixes w :: "job \<Rightarrow> nat"
  shows "distinct (map job_id xs) \<Longrightarrow> r \<in> set xs \<Longrightarrow>
    sum_list (map w (filter (\<lambda>x. job_id x \<noteq> job_id r) xs)) + w r = sum_list (map w xs)"
proof (induction xs)
  case Nil
  then show ?case by simp
next
  case (Cons x xs)
  show ?case
  proof (cases "x = r")
    case True
    have ne: "\<forall>y \<in> set xs. job_id y \<noteq> job_id r"
      using Cons.prems(1) True by (force simp: image_iff)
    then have "filter (\<lambda>y. job_id y \<noteq> job_id r) xs = xs"
      by (simp add: filter_id_conv)
    with True show ?thesis by simp
  next
    case False
    then have "r \<in> set xs" using Cons.prems(2) by simp
    moreover have "job_id x \<noteq> job_id r"
      using Cons.prems(1) \<open>r \<in> set xs\<close> by auto
    ultimately show ?thesis using Cons by simp
  qed
qed

lemma sum_list_replace_one:
  fixes w :: "job \<Rightarrow> nat"
  shows "distinct (map job_id xs) \<Longrightarrow> r \<in> set xs \<Longrightarrow>
    sum_list (map w (map (\<lambda>x. if job_id x = job_id r then r' else x) xs)) + w r
      = sum_list (map w xs) + w r'"
proof (induction xs)
  case Nil
  then show ?case by simp
next
  case (Cons x xs)
  show ?case
  proof (cases "x = r")
    case True
    have ne: "\<forall>y \<in> set xs. job_id y \<noteq> job_id r"
      using Cons.prems(1) True by (force simp: image_iff)
    then have "map (\<lambda>y. if job_id y = job_id r then r' else y) xs = xs"
      by (intro map_idI) simp
    with True show ?thesis by simp
  next
    case False
    then have "r \<in> set xs" using Cons.prems(2) by simp
    moreover have "job_id x \<noteq> job_id r"
      using Cons.prems(1) \<open>r \<in> set xs\<close> by auto
    ultimately show ?thesis using Cons by simp
  qed
qed

lemma processJob_settle_Resolved:
  "snd (processJob_settle (Resolved res) now j its) = delete j its"
  by (simp add: processJob_settle_def Let_def)

lemma processJob_settle_Rejected:
  "snd (processJob_settle (Rejected message) now j its) = create (after_failure now message j) its"
  by (auto simp: processJob_settle_def merge_def save_def assign_def failures_def after_failure_def Let_def
      split: option.splits)

lemma job_id_after_failure [simp]: "job_id (after_failure now message j) = job_id j"
  by (simp add: after_failure_def)

lemma failed_after_failure: "failed j \<noteq> None \<Longrightarrow> failed (after_failure now message j) \<noteq> None"
  by (simp add: after_failure_def)

lemma weight_after_failure: "failed j = None \<Longrightarrow> weight (after_failure now message j) < weight j"
  by (auto simp: after_failure_def weight_def failures_def split: option.splits)

lemma wf_items_settle: "wf_items its \<Longrightarrow> wf_items (snd (processJob_settle out now j its))"
  by (cases out) (simp_all add: processJob_settle_Resolved processJob_settle_Rejected wf_items_delete wf_items_create)

lemma objects_settle:
  assumes "wf_items its" "r \<in> set (objects its)"
  shows "objects (snd (processJob_settle out now r its)) =
           (case out of
              Resolved res \<Rightarrow> filter (\<lambda>x. job_id x \<noteq> job_id r) (objects its)
            | Rejected message \<Rightarrow>
                map (\<lambda>x. if job_id x = job_id r then after_failure now message r else x) (objects its))"
  using assms
  by (cases out) (auto simp: processJob_settle_Resolved processJob_settle_Rejected objects_delete objects_create)

lemma keeps_failed_settle:
  assumes "wf_items its" "r \<in> set (objects its)"
  shows "keeps_failed its (snd (processJob_settle out now r its))"
proof (cases out)
  case (Resolved res)
  then show ?thesis
    unfolding keeps_failed_def objects_settle[OF assms] by auto
next
  case (Rejected message)
  have "\<exists>j\<in>set (objects its). job_id j = job_id j' \<and> (failed j \<noteq> None \<longrightarrow> failed j' \<noteq> None)"
    if "j' \<in> set (map (\<lambda>x. if job_id x = job_id r then after_failure now message r else x) (objects its))" for j'
  proof -
    from that obtain x where x: "x \<in> set (objects its)"
      "j' = (if job_id x = job_id r then after_failure now message r else x)" by auto
    show ?thesis
    proof (cases "job_id x = job_id r")
      case True
      with x have "j' = after_failure now message r" by simp
      then show ?thesis using assms(2) failed_after_failure by (intro bexI[of _ r]) auto
    next
      case False
      with x show ?thesis by (intro bexI[of _ x]) auto
    qed
  qed
  then show ?thesis
    unfolding keeps_failed_def objects_settle[OF assms] Rejected by simp
qed

lemma potential_settle:
  assumes "wf_items its" "r \<in> set (objects its)" "failed r = None"
  shows "potential (snd (processJob_settle out now r its)) < potential its"
proof (cases out)
  case (Resolved res)
  have "0 < weight r" using assms(3) by (simp add: weight_def)
  then show ?thesis
    using sum_list_filter_one[OF distinct_ids[OF assms(1)] assms(2), of weight]
    unfolding potential_def objects_settle[OF assms(1,2)] Resolved by simp
next
  case (Rejected message)
  show ?thesis
    using sum_list_replace_one[OF distinct_ids[OF assms(1)] assms(2), of weight "after_failure now message r"]
      weight_after_failure[OF assms(3), of now message]
    unfolding potential_def objects_settle[OF assms(1,2)] Rejected by simp
qed

lemma others_kept_settle:
  assumes "wf_items its" "r \<in> set (objects its)" "x \<in> set (objects its)" "job_id x \<noteq> job_id r"
  shows "x \<in> set (objects (snd (processJob_settle out now r its)))"
  using assms(3,4) unfolding objects_settle[OF assms(1,2)]
  by (cases out) (auto simp: image_iff)

lemma keeps_failed_refl: "keeps_failed its its"
  by (auto simp: keeps_failed_def)

lemma keeps_failed_trans: "keeps_failed a b \<Longrightarrow> keeps_failed b c \<Longrightarrow> keeps_failed a c"
  unfolding keeps_failed_def by (metis (no_types, lifting))


lemma settle_all_invariant:
  assumes "wf_items its" "distinct (map job_id R)"
    "\<forall>r \<in> set R. r \<in> set (objects its) \<and> failed r = None"
  shows "wf_items (snd (settle_all ex nd R its))
       \<and> potential (snd (settle_all ex nd R its)) + length R \<le> potential its
       \<and> keeps_failed its (snd (settle_all ex nd R its))"
  using assms
proof (induction R arbitrary: its)
  case Nil
  then show ?case by (simp add: keeps_failed_refl)
next
  case (Cons r R)
  let ?its1 = "snd (processJob_settle (ex r) (nd r) r its)"
  have r: "r \<in> set (objects its)" "failed r = None" using Cons.prems(3) by auto
  have wf1: "wf_items ?its1" using Cons.prems(1) by (rule wf_items_settle)
  have pot1: "potential ?its1 < potential its"
    using potential_settle[OF Cons.prems(1) r] .
  have kf1: "keeps_failed its ?its1"
    using keeps_failed_settle[OF Cons.prems(1) r(1)] .
  have rest: "\<forall>x \<in> set R. x \<in> set (objects ?its1) \<and> failed x = None"
  proof
    fix x assume x: "x \<in> set R"
    then have "job_id x \<noteq> job_id r" using Cons.prems(2) by (metis distinct.simps(2) imageI list.simps(9) list.set_map)
    moreover have "x \<in> set (objects its)" "failed x = None" using Cons.prems(3) x by auto
    ultimately show "x \<in> set (objects ?its1) \<and> failed x = None"
      using others_kept_settle[OF Cons.prems(1) r(1)] by blast
  qed
  have d: "distinct (map job_id R)" using Cons.prems(2) by simp
  from Cons.IH[OF wf1 d rest]
  have ih: "wf_items (snd (settle_all ex nd R ?its1))"
    "potential (snd (settle_all ex nd R ?its1)) + length R \<le> potential ?its1"
    "keeps_failed ?its1 (snd (settle_all ex nd R ?its1))"
    by auto
  have eq: "snd (settle_all ex nd (r # R) its) = snd (settle_all ex nd R ?its1)"
    by (simp add: Let_def)
  show ?case
    unfolding eq using ih pot1 keeps_failed_trans[OF kf1 ih(3)] by simp
qed

lemma snd_process_batch: "snd (process_batch ex nd jobs its) = snd (settle_all ex nd jobs its)"
  by (simp add: process_batch_def Let_def)

lemma batch_ready:
  assumes "wf_items its"
  shows "distinct (map job_id (fst (getConcurrentJobs gc l its)))
       \<and> (\<forall>r \<in> set (fst (getConcurrentJobs gc l its)).
             r \<in> set (objects (snd (getConcurrentJobs gc l its))) \<and> failed r = None)"
proof -
  obtain B where B:
    "fst (getConcurrentJobs gc l its) = map (\<lambda>j. j\<lparr>active := True\<rparr>) B"
    "set B \<subseteq> set (findNextJobs (timeoutUpperBound l) its)"
    "distinct B"
    using getConcurrentJobs_batch[OF assms] by blast
  have sub: "set B \<subseteq> set (objects its)" using B(2) findNextJobs_subset by blast
  have inj: "inj_on job_id (set B)"
    using objects_same_id[OF assms] sub by (auto simp: inj_on_def)
  have d: "distinct (map job_id (fst (getConcurrentJobs gc l its)))"
    using B(3) inj by (simp add: B(1) comp_def distinct_map)
  have m: "\<forall>r \<in> set (fst (getConcurrentJobs gc l its)).
             r \<in> set (objects (snd (getConcurrentJobs gc l its))) \<and> failed r = None"
  proof
    fix r assume "r \<in> set (fst (getConcurrentJobs gc l its))"
    then obtain b where b: "b \<in> set B" "r = b\<lparr>active := True\<rparr>" by (auto simp: B(1))
    have "failed b = None" using b(1) B(2) findNextJobs_eligible by blast
    moreover have "job_id b \<in> job_id ` set (fst (getConcurrentJobs gc l its))"
    proof -
      have "job_id (b\<lparr>active := True\<rparr>) \<in> job_id ` set (map (\<lambda>j. j\<lparr>active := True\<rparr>) B)"
        using b(1) by (intro imageI) simp
      then show ?thesis by (simp add: B(1))
    qed
    moreover have "b \<in> set (objects its)" using b(1) sub by auto
    ultimately show "r \<in> set (objects (snd (getConcurrentJobs gc l its))) \<and> failed r = None"
      unfolding objects_getConcurrentJobs[OF assms] using b(2) by (auto simp: image_iff)
  qed
  show ?thesis by (intro conjI d m)
qed

lemma keeps_failed_getConcurrentJobs:
  assumes "wf_items its"
  shows "keeps_failed its (snd (getConcurrentJobs gc l its))"
  unfolding keeps_failed_def objects_getConcurrentJobs[OF assms] by auto

lemma iteration_invariant:
  assumes "wf_items its"
  shows "wf_items (snd (process_batch ex nd (fst (getConcurrentJobs gc l its)) (snd (getConcurrentJobs gc l its))))
       \<and> potential (snd (process_batch ex nd (fst (getConcurrentJobs gc l its)) (snd (getConcurrentJobs gc l its))))
            + length (fst (getConcurrentJobs gc l its)) \<le> potential its
       \<and> keeps_failed its
            (snd (process_batch ex nd (fst (getConcurrentJobs gc l its)) (snd (getConcurrentJobs gc l its))))"
proof -
  let ?R = "fst (getConcurrentJobs gc l its)"
  let ?its1 = "snd (getConcurrentJobs gc l its)"
  have wf1: "wf_items ?its1" using assms by (rule wf_items_getConcurrentJobs)
  from batch_ready[OF assms, of gc l]
  have d: "distinct (map job_id ?R)" and m: "\<forall>r \<in> set ?R. r \<in> set (objects ?its1) \<and> failed r = None"
    by auto
  from settle_all_invariant[OF wf1 d m, of ex nd]
  have inv: "wf_items (snd (settle_all ex nd ?R ?its1))"
    "potential (snd (settle_all ex nd ?R ?its1)) + length ?R \<le> potential ?its1"
    "keeps_failed ?its1 (snd (settle_all ex nd ?R ?its1))"
    by auto
  show ?thesis
    unfolding snd_process_batch
    using inv potential_getConcurrentJobs[OF assms, of gc l]
      keeps_failed_trans[OF keeps_failed_getConcurrentJobs[OF assms, of gc l] inv(3)]
    by simp
qed


lemma run_loop_result:
  assumes "wf_items (jobDB q)" "run_loop fuel e lifespan st n q = Some res"
  shows "status (snd res) = Inactive \<and> wf_items (jobDB (snd res)) \<and> keeps_failed (jobDB q) (jobDB (snd res))"
  using assms
proof (induction fuel arbitrary: q n res)
  case 0
  then show ?case by simp
next
  case (Suc fuel)
  define l where "l = (case lifespan of None \<Rightarrow> None | Some t \<Rightarrow> Some (t - (clock_now e (Suc n) - st)))"
  define sel where "sel = getConcurrentJobs (worker_getConcurrency e) l (jobDB q)"
  define proc where "proc = process_batch (worker_executeJob e n) (clock_newDate e n) (fst sel) (snd sel)"
  define q1 where "q1 = q\<lparr>jobDB := snd proc, status := (if stop_called e n then Inactive else status q)\<rparr>"
  have step: "run_loop (Suc fuel) e lifespan st n q =
      (if status q1 = Active \<and> fst sel \<noteq> []
       then (case run_loop fuel e lifespan st (Suc n) q1 of
               None \<Rightarrow> None
             | Some rest \<Rightarrow> Some (fst proc @ fst rest, snd rest))
       else Some (fst proc, q1\<lparr>status := Inactive\<rparr>))"
    unfolding l_def sel_def proc_def q1_def run_loop.simps Let_def by (rule refl)
  from iteration_invariant[OF Suc.prems(1), of "worker_executeJob e n" "clock_newDate e n" "worker_getConcurrency e" l]
  have inv: "wf_items (jobDB q1)" "keeps_failed (jobDB q) (jobDB q1)"
    by (simp_all add: q1_def proc_def sel_def)
  show ?case
  proof (cases "status q1 = Active \<and> fst sel \<noteq> []")
    case True
    with Suc.prems(2) step obtain rest where rest: "run_loop fuel e lifespan st (Suc n) q1 = Some rest"
      and res: "res = (fst proc @ fst rest, snd rest)"
      by (auto split: option.splits)
    from Suc.IH[OF inv(1) rest]
    have "status (snd rest) = Inactive" "wf_items (jobDB (snd rest))" "keeps_failed (jobDB q1) (jobDB (snd rest))"
      by auto
    then show ?thesis
      using res keeps_failed_trans[OF inv(2)] by simp
  next
    case False
    with Suc.prems(2) step have "res = (fst proc, q1\<lparr>status := Inactive\<rparr>)" by auto
    then show ?thesis using inv by simp
  qed
qed






section \<open>Jobs that have failed for good\<close>

lemma keeps_failed_still:
  assumes "wf_items its" "j \<in> set (objects its)" "failed j \<noteq> None" "keeps_failed its its'"
  shows "still_failed j its'"
  unfolding still_failed_def
proof (intro ballI impI)
  fix j' assume j': "j' \<in> set (objects its')" "job_id j' = job_id j"
  from assms(4) j'(1) obtain x where x: "x \<in> set (objects its)" "job_id x = job_id j'"
    "failed x \<noteq> None \<longrightarrow> failed j' \<noteq> None"
    unfolding keeps_failed_def by blast
  from objects_same_id[OF assms(1) x(1) assms(2)] x(2) j'(2) have "x = j" by simp
  with x(3) assms(3) show "failed j' \<noteq> None" by simp
qed

lemma storage_delete_keys_filter:
  "storage_delete_keys ks its = filter (\<lambda>e. fst e \<notin> set ks) its"
  by (induction ks arbitrary: its)
     (auto simp: storage_delete_def AList.delete_eq case_prod_unfold intro: filter_cong)

lemma wf_items_filter: "wf_items its \<Longrightarrow> wf_items (filter P its)"
  by (auto simp: wf_items_def list_all_iff intro: distinct_map_filter)

lemma keeps_failed_delete_keys:
  assumes "wf_items its"
  shows "keeps_failed its (storage_delete_keys ks its)"
proof -
  have "set (objects (storage_delete_keys ks its)) \<subseteq> set (objects its)"
    unfolding storage_delete_keys_filter
    using assms wf_items_filter[OF assms] by (auto simp: objects_wf)
  then show ?thesis
    unfolding keeps_failed_def by blast
qed

lemma keeps_failed_flushQueue:
  assumes "wf_items (jobDB q)"
  shows "keeps_failed (jobDB q) (jobDB (flushQueue jobName q))"
  using keeps_failed_delete_keys[OF assms] keeps_failed_refl
  by (auto simp: flushQueue_def deleteAll_def deleteByName_def delete_jobs_def Let_def split: option.splits)

lemma snd_processJob: "snd (processJob outcome now x its) = snd (processJob_settle outcome now x its)"
  by (simp add: processJob_def Let_def)

lemma createJob_cases:
  "snd (createJob name_arg pl opts startQueue uuid now q) = q
   \<or> (\<exists>jn. jobDB (snd (createJob name_arg pl opts startQueue uuid now q))
              = create jn (if executeFailedJobsOnStart q then resetFailedJobs (jobDB q) else jobDB q)
            \<and> job_id jn = new_job_id pl uuid)"
proof (cases "\<exists>nm. name_arg = Some nm \<and> nm \<noteq> [] \<and> \<not> lt0 (options_timeout opts) \<and> \<not> lt0 (options_attempts opts)")
  case False
  then have "snd (createJob name_arg pl opts startQueue uuid now q) = q"
    by (auto simp: createJob_def split: option.splits)
  then show ?thesis by simp
next
  case True
  then obtain nm where "name_arg = Some nm" "nm \<noteq> []" "\<not> lt0 (options_timeout opts)"
    "\<not> lt0 (options_attempts opts)" by blast
  then have "\<exists>jn. jobDB (snd (createJob name_arg pl opts startQueue uuid now q))
              = create jn (if executeFailedJobsOnStart q then resetFailedJobs (jobDB q) else jobDB q)
            \<and> job_id jn = new_job_id pl uuid"
    by (cases "executeFailedJobsOnStart q")
       ((simp add: createJob_def Let_def new_job_id_def), (rule exI, intro conjI, rule refl, simp))+
  then show ?thesis by simp
qed

lemma still_failed_create:
  assumes "wf_items its" "j \<in> set (objects its)" "failed j \<noteq> None" "job_id jn \<noteq> job_id j"
  shows "still_failed j (create jn its)"
  unfolding still_failed_def
proof (intro ballI impI)
  fix j' assume j': "j' \<in> set (objects (create jn its))" "job_id j' = job_id j"
  then have "j' \<noteq> jn" using assms(4) by auto
  with j'(1) have "j' \<in> set (objects its)"
    unfolding objects_create[OF assms(1)] by (auto split: if_splits)
  from objects_same_id[OF assms(1) this assms(2) j'(2)] assms(3) show "failed j' \<noteq> None" by simp
qed

lemma still_failed_after_failure:
  assumes "wf_items its" "attempts (data x) \<le> failures x + 1"
  shows "still_failed x (snd (processJob (Rejected message) now x its))"
  unfolding still_failed_def
proof (intro ballI impI)
  let ?its' = "snd (processJob (Rejected message) now x its)"
  fix j' assume j': "j' \<in> set (objects ?its')" "job_id j' = job_id x"
  have eq: "?its' = create (after_failure now message x) its"
    by (simp add: snd_processJob processJob_settle_Rejected)
  have wf': "wf_items ?its'" unfolding eq using assms(1) by (rule wf_items_create)
  have "after_failure now message x \<in> set (objects ?its')"
    unfolding eq by (rule create_mem_objects)
  from objects_same_id[OF wf' j'(1) this] j'(2) have "j' = after_failure now message x" by simp
  then show "failed j' \<noteq> None" using assms(2) by (simp add: after_failure_def)
qed

text \<open>
  Claim C4, as the code has it. A failure that uses up the attempts leaves the job
  stored with \<open>failed\<close> set. A stored job with \<open>failed\<close> set is not a candidate of
  \<open>findNextJobs\<close> and is not in the batch of \<open>getConcurrentJobs\<close>, and it keeps
  \<open>failed\<close> (or is removed) under selection, under \<open>processJob\<close> of any stored job,
  under \<open>flushQueue\<close>, \<open>stop\<close> and \<open>start\<close>, and under \<open>createJob\<close> when
  the queue's \<open>executeFailedJobsOnStart\<close> flag is off (with the flag on,
  \<open>createJob\<close> runs \<open>resetFailedJobs\<close>) and the new job's id is not the failed
  job's id.
\<close>

theorem failed_cleared_only_by_reset:
  assumes "wf_items (jobDB q)" "j \<in> set (objects (jobDB q))" "failed j \<noteq> None"
  shows "(attempts (data x) \<le> failures x + 1 \<longrightarrow>
            (\<exists>x' \<in> set (objects (snd (processJob (Rejected message) now x (jobDB q)))).
                job_id x' = job_id x \<and> failed x' \<noteq> None)
            \<and> still_failed x (snd (processJob (Rejected message) now x (jobDB q))))
       \<and> j \<notin> set (findNextJobs b (jobDB q))
       \<and> job_id j \<notin> job_id ` set (fst (getConcurrentJobs gc l (jobDB q)))
       \<and> still_failed j (snd (getConcurrentJobs gc l (jobDB q)))
       \<and> (y \<in> set (objects (jobDB q)) \<longrightarrow> still_failed j (snd (processJob outcome now y (jobDB q))))
       \<and> still_failed j (jobDB (flushQueue jobName q))
       \<and> still_failed j (jobDB (stop q))
       \<and> (\<not> executeFailedJobsOnStart q \<and> new_job_id pl uuid \<noteq> job_id j \<longrightarrow>
            still_failed j (jobDB (snd (createJob name_arg pl opts startQueue uuid now q))))
       \<and> (start fuel e lifespan q = Some (ret, trace, q') \<longrightarrow> still_failed j (jobDB q'))"
proof -
  note still = keeps_failed_still[OF assms]
  have exhausted: "attempts (data x) \<le> failures x + 1 \<longrightarrow>
            (\<exists>x' \<in> set (objects (snd (processJob (Rejected message) now x (jobDB q)))).
                job_id x' = job_id x \<and> failed x' \<noteq> None)
            \<and> still_failed x (snd (processJob (Rejected message) now x (jobDB q)))"
  proof
    assume a: "attempts (data x) \<le> failures x + 1"
    have "after_failure now message x \<in> set (objects (snd (processJob (Rejected message) now x (jobDB q))))"
      by (simp add: snd_processJob processJob_settle_Rejected create_mem_objects)
    moreover have "failed (after_failure now message x) \<noteq> None"
      using a by (simp add: after_failure_def)
    ultimately have "\<exists>x' \<in> set (objects (snd (processJob (Rejected message) now x (jobDB q)))).
                job_id x' = job_id x \<and> failed x' \<noteq> None"
      by (intro bexI[of _ "after_failure now message x"]) simp_all
    then show "(\<exists>x' \<in> set (objects (snd (processJob (Rejected message) now x (jobDB q)))).
                job_id x' = job_id x \<and> failed x' \<noteq> None)
            \<and> still_failed x (snd (processJob (Rejected message) now x (jobDB q)))"
      using still_failed_after_failure[OF assms(1) a] by simp
  qed
  have not_candidate: "j \<notin> set (findNextJobs b (jobDB q))"
    using findNextJobs_eligible[of j b "jobDB q"] assms(3) by auto
  have not_selected: "job_id j \<notin> job_id ` set (fst (getConcurrentJobs gc l (jobDB q)))"
  proof
    assume "job_id j \<in> job_id ` set (fst (getConcurrentJobs gc l (jobDB q)))"
    then obtain r where r: "r \<in> set (fst (getConcurrentJobs gc l (jobDB q)))" "job_id r = job_id j"
      by auto
    then obtain c where c: "c \<in> set (findNextJobs (timeoutUpperBound l) (jobDB q))" "r = c\<lparr>active := True\<rparr>"
      using getConcurrentJobs_from_candidates by blast
    then have c': "c \<in> set (objects (jobDB q))" "failed c = None" "job_id c = job_id j"
      using findNextJobs_eligible[of c "timeoutUpperBound l" "jobDB q"] r(2) by auto
    from objects_same_id[OF assms(1) c'(1) assms(2) c'(3)] c'(2) assms(3) show False by simp
  qed
  have selection: "still_failed j (snd (getConcurrentJobs gc l (jobDB q)))"
    by (rule still) (rule keeps_failed_getConcurrentJobs[OF assms(1)])
  have processing: "y \<in> set (objects (jobDB q)) \<longrightarrow> still_failed j (snd (processJob outcome now y (jobDB q)))"
    using still keeps_failed_settle[OF assms(1)] by (simp add: snd_processJob)
  have flushing: "still_failed j (jobDB (flushQueue jobName q))"
    by (rule still) (rule keeps_failed_flushQueue[OF assms(1)])
  have stopping: "still_failed j (jobDB (stop q))"
    using still keeps_failed_refl by (simp add: stop_def)
  have creating: "\<not> executeFailedJobsOnStart q \<and> new_job_id pl uuid \<noteq> job_id j \<longrightarrow>
            still_failed j (jobDB (snd (createJob name_arg pl opts startQueue uuid now q)))"
  proof (intro impI, elim conjE)
    assume flag: "\<not> executeFailedJobsOnStart q" and other: "new_job_id pl uuid \<noteq> job_id j"
    from createJob_cases[of name_arg pl opts startQueue uuid now q]
    show "still_failed j (jobDB (snd (createJob name_arg pl opts startQueue uuid now q)))"
    proof
      assume "snd (createJob name_arg pl opts startQueue uuid now q) = q"
      then show ?thesis using still keeps_failed_refl by simp
    next
      assume "\<exists>jn. jobDB (snd (createJob name_arg pl opts startQueue uuid now q))
              = create jn (if executeFailedJobsOnStart q then resetFailedJobs (jobDB q) else jobDB q)
            \<and> job_id jn = new_job_id pl uuid"
      then obtain jn where "jobDB (snd (createJob name_arg pl opts startQueue uuid now q)) = create jn (jobDB q)"
        "job_id jn = new_job_id pl uuid" using flag by auto
      then show ?thesis using still_failed_create[OF assms, of jn] other by simp
    qed
  qed
  have starting: "start fuel e lifespan q = Some (ret, trace, q') \<longrightarrow> still_failed j (jobDB q')"
  proof
    assume s: "start fuel e lifespan q = Some (ret, trace, q')"
    show "still_failed j (jobDB q')"
    proof (cases "status q = Active")
      case True
      with s have "q' = q" by (simp add: start_def)
      then show ?thesis using still keeps_failed_refl by simp
    next
      case False
      with s have r: "run_loop fuel e lifespan (clock_now e 0) 0 (q\<lparr>status := Active\<rparr>) = Some (trace, q')"
        by (auto simp: start_def split: option.splits)
      have "wf_items (jobDB (q\<lparr>status := Active\<rparr>))" using assms(1) by simp
      from run_loop_result[OF this r] have "keeps_failed (jobDB q) (jobDB q')" by simp
      then show ?thesis by (rule still)
    qed
  qed
  show ?thesis
    by (intro conjI exhausted not_candidate not_selected selection processing flushing stopping
        creating starting)
qed

lemma jobDB_sample_failed_queue:
  "jobDB sample_failed_queue =
     [(''@queue:Job-a'', sample_job ''a'' ''mail'' 0 25000 10),
      (''@queue:Job-b'', (sample_job ''b'' ''sync'' 5 1000 20)
          \<lparr> data := \<lparr> attempts = 1, failedAttempts = Some 1, errors = Some [''boom''] \<rparr>,
            failed := Some 99 \<rparr>),
      (''@queue:Job-c'', sample_job ''c'' ''mail'' 5 0 30)]"
  by (simp add: sample_failed_queue_def processJob_def processJob_settle_def Let_def merge_def save_def
        assign_def sample_eval)

lemma wf_items_sample_failed_queue: "wf_items (jobDB sample_failed_queue)"
  unfolding jobDB_sample_failed_queue
  by (simp add: wf_items_def getKey_def JOB_PREFIX_def sample_job_def)

lemma start_sample_failed_queue:
  "start 7 sample_env None sample_failed_queue =
     Some (ReturnUndefined,
        [Callback onStart ''mail'' ''c'' \<lparr>payload_id = Some ''c'', payload_body = []\<rparr> None,
         Callback onSuccess ''mail'' ''c'' \<lparr>payload_id = Some ''c'', payload_body = []\<rparr> (Some ''ok''),
         Callback onComplete ''mail'' ''c'' \<lparr>payload_id = Some ''c'', payload_body = []\<rparr> (Some ''ok''),
         Callback onStart ''mail'' ''a'' \<lparr>payload_id = Some ''a'', payload_body = []\<rparr> None,
         Callback onSuccess ''mail'' ''a'' \<lparr>payload_id = Some ''a'', payload_body = []\<rparr> (Some ''ok''),
         Callback onComplete ''mail'' ''a'' \<lparr>payload_id = Some ''a'', payload_body = []\<rparr> (Some ''ok'')],
        \<lparr> jobDB = [(''@queue:Job-b'', (sample_job ''b'' ''sync'' 5 1000 20)
             \<lparr> data := \<lparr> attempts = 1, failedAttempts = Some 1, errors = Some [''boom''] \<rparr>,
               failed := Some 99 \<rparr>)], status = Inactive, executeFailedJobsOnStart = False \<rparr>)"
  by code_simp

theorem failed_cleared_only_by_reset_witness:
  "wf_items (jobDB sample_failed_queue)
   \<and> (sample_job ''b'' ''sync'' 5 1000 20)
          \<lparr> data := \<lparr> attempts = 1, failedAttempts = Some 1, errors = Some [''boom''] \<rparr>,
            failed := Some 99 \<rparr> \<in> set (objects (jobDB sample_failed_queue))
   \<and> failed ((sample_job ''b'' ''sync'' 5 1000 20)
          \<lparr> data := \<lparr> attempts = 1, failedAttempts = Some 1, errors = Some [''boom''] \<rparr>,
            failed := Some 99 \<rparr>) \<noteq> None
   \<and> map job_id (findNextJobs None (jobDB sample_failed_queue)) = [''c'', ''a'']
   \<and> start 7 sample_env None sample_failed_queue =
     Some (ReturnUndefined,
        [Callback onStart ''mail'' ''c'' \<lparr>payload_id = Some ''c'', payload_body = []\<rparr> None,
         Callback onSuccess ''mail'' ''c'' \<lparr>payload_id = Some ''c'', payload_body = []\<rparr> (Some ''ok''),
         Callback onComplete ''mail'' ''c'' \<lparr>payload_id = Some ''c'', payload_body = []\<rparr> (Some ''ok''),
         Callback onStart ''mail'' ''a'' \<lparr>payload_id = Some ''a'', payload_body = []\<rparr> None,
         Callback onSuccess ''mail'' ''a'' \<lparr>payload_id = Some ''a'', payload_body = []\<rparr> (Some ''ok''),
         Callback onComplete ''mail'' ''a'' \<lparr>payload_id = Some ''a'', payload_body = []\<rparr> (Some ''ok'')],
        \<lparr> jobDB = [(''@queue:Job-b'', (sample_job ''b'' ''sync'' 5 1000 20)
             \<lparr> data := \<lparr> attempts = 1, failedAttempts = Some 1, errors = Some [''boom''] \<rparr>,
               failed := Some 99 \<rparr>)], status = Inactive, executeFailedJobsOnStart = False \<rparr>)
   \<and> still_failed ((sample_job ''b'' ''sync'' 5 1000 20)
          \<lparr> data := \<lparr> attempts = 1, failedAttempts = Some 1, errors = Some [''boom''] \<rparr>,
            failed := Some 99 \<rparr>)
        [(''@queue:Job-b'', (sample_job ''b'' ''sync'' 5 1000 20)
             \<lparr> data := \<lparr> attempts = 1, failedAttempts = Some 1, errors = Some [''boom''] \<rparr>,
               failed := Some 99 \<rparr>)]
   \<and> \<not> executeFailedJobsOnStart sample_failed_queue
   \<and> new_job_id \<lparr> payload_id = None, payload_body = [] \<rparr> ''u1'' \<noteq> ''b''
   \<and> still_failed ((sample_job ''b'' ''sync'' 5 1000 20)
          \<lparr> data := \<lparr> attempts = 1, failedAttempts = Some 1, errors = Some [''boom''] \<rparr>,
            failed := Some 99 \<rparr>)
        (jobDB (snd (createJob (Some ''mail'') \<lparr> payload_id = None, payload_body = [] \<rparr>
           \<lparr> options_timeout = None, options_attempts = None, options_priority = None \<rparr>
           False ''u1'' 100 sample_failed_queue)))"
proof -
  let ?j = "(sample_job ''b'' ''sync'' 5 1000 20)
          \<lparr> data := \<lparr> attempts = 1, failedAttempts = Some 1, errors = Some [''boom''] \<rparr>,
            failed := Some 99 \<rparr>"
  have "objects (jobDB sample_failed_queue) = map snd (jobDB sample_failed_queue)"
    by (rule objects_wf[OF wf_items_sample_failed_queue])
  then have mem: "?j \<in> set (objects (jobDB sample_failed_queue))"
    by (simp add: jobDB_sample_failed_queue)
  have failed: "failed ?j \<noteq> None" by simp
  have cands: "map job_id (findNextJobs None (jobDB sample_failed_queue)) = [''c'', ''a'']"
    by code_simp
  have flag: "\<not> executeFailedJobsOnStart sample_failed_queue"
    by (simp add: sample_failed_queue_def)
  have other: "new_job_id \<lparr> payload_id = None, payload_body = [] \<rparr> ''u1'' \<noteq> job_id ?j"
    by (simp add: new_job_id_def sample_job_def)
  note inst = failed_cleared_only_by_reset [OF wf_items_sample_failed_queue mem failed,
      where fuel = 7 and e = sample_env and lifespan = None and pl = "\<lparr> payload_id = None, payload_body = [] \<rparr>"
        and uuid = "''u1''" and name_arg = "Some ''mail''" and startQueue = False and now = 100
        and opts = "\<lparr> options_timeout = None, options_attempts = None, options_priority = None \<rparr>"]
  from inst flag other have created: "still_failed ?j
        (jobDB (snd (createJob (Some ''mail'') \<lparr> payload_id = None, payload_body = [] \<rparr>
           \<lparr> options_timeout = None, options_attempts = None, options_priority = None \<rparr>
           False ''u1'' 100 sample_failed_queue)))"
    by blast
  from inst start_sample_failed_queue have run: "still_failed ?j
        [(''@queue:Job-b'', (sample_job ''b'' ''sync'' 5 1000 20)
             \<lparr> data := \<lparr> attempts = 1, failedAttempts = Some 1, errors = Some [''boom''] \<rparr>,
               failed := Some 99 \<rparr>)]"
    by (metis queue.select_convs(1))
  have other': "new_job_id \<lparr> payload_id = None, payload_body = [] \<rparr> ''u1'' \<noteq> ''b''"
    by (simp add: new_job_id_def)
  show ?thesis
    by (intro conjI wf_items_sample_failed_queue mem failed cands start_sample_failed_queue run flag
        other' created)
qed

text \<open>
  The claim as written fails for \<open>createJob\<close> with the \<^verbatim>\<open>payload.id\<close> of a failed job:
  \<open>create\<close> replaces the record, so the job with that id has \<open>failed = None\<close>
  again, without \<open>resetFailedJobs\<close>, and is selected again.
\<close>

theorem createJob_same_id_clears_failed_counterexample:
  "map job_id (objects (jobDB sample_failed_queue)) = [''a'', ''b'', ''c'']
   \<and> map failed (objects (jobDB sample_failed_queue)) = [None, Some 99, None]
   \<and> executeFailedJobsOnStart sample_failed_queue = False
   \<and> map job_id (objects (jobDB (snd (createJob (Some ''sync'') \<lparr> payload_id = Some ''b'', payload_body = [] \<rparr>
           \<lparr> options_timeout = None, options_attempts = None, options_priority = Some 9 \<rparr>
           False ''u1'' 100 sample_failed_queue)))) = [''a'', ''b'', ''c'']
   \<and> map failed (objects (jobDB (snd (createJob (Some ''sync'') \<lparr> payload_id = Some ''b'', payload_body = [] \<rparr>
           \<lparr> options_timeout = None, options_attempts = None, options_priority = Some 9 \<rparr>
           False ''u1'' 100 sample_failed_queue)))) = [None, None, None]
   \<and> map job_id (fst (getConcurrentJobs (\<lambda>_. 1) None
         (jobDB (snd (createJob (Some ''sync'') \<lparr> payload_id = Some ''b'', payload_body = [] \<rparr>
           \<lparr> options_timeout = None, options_attempts = None, options_priority = Some 9 \<rparr>
           False ''u1'' 100 sample_failed_queue))))) = [''b'']"
  by code_simp

section \<open>The invariant is kept by every operation\<close>

text \<open>
  \<open>wf_items\<close> holds of the empty store and is kept by \<open>createJob\<close>,
  \<open>getConcurrentJobs\<close> (\<open>wf_items_getConcurrentJobs\<close>), \<open>processJob\<close>,
  \<open>flushQueue\<close> and \<open>start\<close>, so it holds of every store the queue reaches
  through \<^verbatim>\<open>MemoryStorage\<close>.
\<close>

lemma wf_items_empty: "wf_items []"
  by (simp add: wf_items_def)

lemma wf_items_createJob:
  assumes "wf_items (jobDB q)"
  shows "wf_items (jobDB (snd (createJob name_arg pl opts startQueue uuid now q)))"
proof -
  have "wf_items (if executeFailedJobsOnStart q then resetFailedJobs (jobDB q) else jobDB q)"
    using assms by (simp add: wf_items_resetFailedJobs)
  then show ?thesis
    using createJob_cases[of name_arg pl opts startQueue uuid now q] assms
    by (auto simp: wf_items_create)
qed

lemma wf_items_flushQueue:
  assumes "wf_items (jobDB q)"
  shows "wf_items (jobDB (flushQueue jobName q))"
  using assms wf_items_filter[OF assms]
  by (auto simp: flushQueue_def deleteAll_def deleteByName_def delete_jobs_def Let_def
        storage_delete_keys_filter split: option.splits)

lemma wf_items_processJob: "wf_items its \<Longrightarrow> wf_items (snd (processJob outcome now x its))"
  by (simp add: snd_processJob wf_items_settle)

lemma wf_items_start:
  assumes "wf_items (jobDB q)" "start fuel e lifespan q = Some (ret, trace, q')"
  shows "wf_items (jobDB q')"
proof (cases "status q = Active")
  case True
  with assms show ?thesis by (simp add: start_def)
next
  case False
  with assms(2) have r: "run_loop fuel e lifespan (clock_now e 0) 0 (q\<lparr>status := Active\<rparr>) = Some (trace, q')"
    by (auto simp: start_def split: option.splits)
  have "wf_items (jobDB (q\<lparr>status := Active\<rparr>))" using assms(1) by simp
  from run_loop_result[OF this r] show ?thesis by simp
qed

end
